theory Spec2Isabelle
  imports Complex_Main
begin

section \<open>Seam carving (utils.py): arrays, cost grids, seam finders, removal\<close>

text \<open>
  The program works on numpy arrays. A two-dimensional array is modelled with its shape
  and its rows; numpy's floats are modelled as real numbers (the value \<open>inf\<close>, which
  only the DP cost matrix holds, is a constructor of its own). Python integers are
  \<open>int\<close>; shapes and loop counters that come from \<open>range\<close> over a shape are \<open>nat\<close>.
  An exception is a value of type \<open>error\<close>.
\<close>

subsection \<open>Errors and Python indexing\<close>

datatype error = IndexError | ValueError

text \<open>\<open>xs[i]\<close> on a sequence of length \<open>n\<close>: a negative index counts from the end,
  anything outside \<open>[-n, n)\<close> raises IndexError.\<close>

definition py_index :: "nat \<Rightarrow> int \<Rightarrow> error + nat" where
  "py_index n i =
     (if 0 \<le> i \<and> i < int n then Inr (nat i)
      else if - int n \<le> i \<and> i < 0 then Inr (nat (int n + i))
      else Inl IndexError)"

subsection \<open>Two-dimensional arrays\<close>

datatype 'a arr = Arr (nrows: nat) (ncols: nat) (rows: "'a list list")

definition wf_arr :: "'a arr \<Rightarrow> bool" where
  "wf_arr a \<longleftrightarrow> length (rows a) = nrows a \<and> list_all (\<lambda>r. length r = ncols a) (rows a)"

definition cell :: "'a arr \<Rightarrow> nat \<Rightarrow> nat \<Rightarrow> 'a" where
  "cell a i j = rows a ! i ! j"

definition mk_arr :: "nat \<Rightarrow> nat \<Rightarrow> (nat \<Rightarrow> nat \<Rightarrow> 'a) \<Rightarrow> 'a arr" where
  "mk_arr m n f = Arr m n (map (\<lambda>i. map (f i) [0..<n]) [0..<m])"

text \<open>\<open>a[i, j]\<close> with Python integers.\<close>

definition get2 :: "'a arr \<Rightarrow> int \<Rightarrow> int \<Rightarrow> error + 'a" where
  "get2 a i j =
     (case py_index (nrows a) i of
        Inl e \<Rightarrow> Inl e
      | Inr i' \<Rightarrow> (case py_index (ncols a) j of
                    Inl e \<Rightarrow> Inl e
                  | Inr j' \<Rightarrow> Inr (cell a i' j')))"

text \<open>\<open>np.roll(a, shift, axis)\<close> for the shifts the program uses: the element at
  position \<open>k\<close> moves to position \<open>(k + shift) mod n\<close>, so the result reads position
  \<open>(k - shift) mod n\<close>.\<close>

definition roll_axis0 :: "int \<Rightarrow> 'a arr \<Rightarrow> 'a arr" where
  "roll_axis0 shift a =
     mk_arr (nrows a) (ncols a)
       (\<lambda>i j. cell a (nat ((int i - shift) mod int (nrows a))) j)"

definition roll_axis1 :: "int \<Rightarrow> 'a arr \<Rightarrow> 'a arr" where
  "roll_axis1 shift a =
     mk_arr (nrows a) (ncols a)
       (\<lambda>i j. cell a i (nat ((int j - shift) mod int (ncols a))))"

text \<open>Element-wise operations on arrays of one shape.\<close>

definition arr_map2 :: "('a \<Rightarrow> 'b \<Rightarrow> 'c) \<Rightarrow> 'a arr \<Rightarrow> 'b arr \<Rightarrow> 'c arr" where
  "arr_map2 f a b = mk_arr (nrows a) (ncols a) (\<lambda>i j. f (cell a i j) (cell b i j))"

definition arr_map :: "('a \<Rightarrow> 'b) \<Rightarrow> 'a arr \<Rightarrow> 'b arr" where
  "arr_map f a = mk_arr (nrows a) (ncols a) (\<lambda>i j. f (cell a i j))"

subsection \<open>SeamImage.calc\_C\<close>

text \<open>
  \<^verbatim>\<open>
  j_plus = np.roll(self.resized_gs, shift=-1, axis=0)
  j_minus = np.roll(self.resized_gs, shift=1, axis=0)
  i_minus = np.roll(self.resized_gs, shift=1, axis=1)
  self.C_V = np.abs(j_plus - j_minus)
  self.C_L = np.abs(j_plus - j_minus) + np.abs(j_minus - i_minus)
  self.C_R = np.abs(j_plus - j_minus) + np.abs(j_plus - i_minus)
  \<close>
  The result is the triple \<open>(C_V, C_L, C_R)\<close>.
\<close>

definition calc_C :: "real arr \<Rightarrow> real arr \<times> real arr \<times> real arr" where
  "calc_C gs =
     (let j_plus = roll_axis0 (-1) gs;
          j_minus = roll_axis0 1 gs;
          i_minus = roll_axis1 1 gs;
          cv = arr_map abs (arr_map2 (-) j_plus j_minus)
      in (cv,
          arr_map2 (+) cv (arr_map abs (arr_map2 (-) j_minus i_minus)),
          arr_map2 (+) cv (arr_map abs (arr_map2 (-) j_plus i_minus))))"

definition C_V_of :: "real arr \<Rightarrow> real arr" where
  "C_V_of gs = fst (calc_C gs)"

definition C_L_of :: "real arr \<Rightarrow> real arr" where
  "C_L_of gs = fst (snd (calc_C gs))"

definition C_R_of :: "real arr \<Rightarrow> real arr" where
  "C_R_of gs = snd (snd (calc_C gs))"

subsection \<open>SeamImage.calc\_gradient\_magnitude\<close>

text \<open>\<open>np.pad(a, ((0, 1), (0, 1)), mode="constant", constant_values=c)\<close>: one more row
  at the bottom and one more column at the right, filled with \<open>c\<close>.\<close>

definition pad_end :: "'a \<Rightarrow> 'a arr \<Rightarrow> 'a arr" where
  "pad_end c a =
     mk_arr (nrows a + 1) (ncols a + 1)
       (\<lambda>i j. if i < nrows a \<and> j < ncols a then cell a i j else c)"

text \<open>\<open>np.diff(a, axis=0)\<close> and \<open>np.diff(a, axis=1)\<close>: forward differences.\<close>

definition diff_axis0 :: "real arr \<Rightarrow> real arr" where
  "diff_axis0 a = mk_arr (nrows a - 1) (ncols a) (\<lambda>i j. cell a (i + 1) j - cell a i j)"

definition diff_axis1 :: "real arr \<Rightarrow> real arr" where
  "diff_axis1 a = mk_arr (nrows a) (ncols a - 1) (\<lambda>i j. cell a i (j + 1) - cell a i j)"

text \<open>The slices \<open>a[:, :-1]\<close> and \<open>a[:-1, :]\<close>.\<close>

definition drop_last_col :: "'a arr \<Rightarrow> 'a arr" where
  "drop_last_col a = mk_arr (nrows a) (ncols a - 1) (cell a)"

definition drop_last_row :: "'a arr \<Rightarrow> 'a arr" where
  "drop_last_row a = mk_arr (nrows a - 1) (ncols a) (cell a)"

text \<open>
  \<^verbatim>\<open>
  padded = np.pad(self.resized_gs, ((0, 1), (0, 1)), mode="constant", constant_values=0.5)
  return np.sqrt(np.square(np.diff(padded, axis=0)[:, :-1])
                 + np.square(np.diff(padded, axis=1)[:-1, :]))
  \<close>
\<close>

definition calc_gradient_magnitude :: "real arr \<Rightarrow> real arr" where
  "calc_gradient_magnitude gs =
     (let padded = pad_end (1 / 2) gs
      in arr_map sqrt
           (arr_map2 (+)
              (arr_map (\<lambda>x. x\<^sup>2) (drop_last_col (diff_axis0 padded)))
              (arr_map (\<lambda>x. x\<^sup>2) (drop_last_row (diff_axis1 padded)))))"

subsection \<open>Costs that may be infinite, and argmin\<close>

text \<open>The DP cost matrix is created with \<open>np.full((3, w), float("inf"))\<close>; its entries
  are finite floats or \<open>inf\<close>.\<close>

datatype cost = Fin real | PInf

fun cadd :: "cost \<Rightarrow> cost \<Rightarrow> cost" where
  "cadd (Fin a) (Fin b) = Fin (a + b)"
| "cadd _ _ = PInf"

instantiation cost :: linorder
begin

fun less_eq_cost :: "cost \<Rightarrow> cost \<Rightarrow> bool" where
  "less_eq_cost (Fin a) (Fin b) = (a \<le> b)"
| "less_eq_cost PInf (Fin b) = False"
| "less_eq_cost x PInf = True"

definition less_cost :: "cost \<Rightarrow> cost \<Rightarrow> bool" where
  "less_cost x y = (x \<le> y \<and> \<not> y \<le> (x::cost))"

instance
proof
  fix x y z :: cost
  show "(x < y) = (x \<le> y \<and> \<not> y \<le> x)"
    by (simp add: less_cost_def)
  show "x \<le> x"
    by (cases x) simp_all
  show "x \<le> y \<Longrightarrow> y \<le> z \<Longrightarrow> x \<le> z"
    by (cases x; cases y; cases z) simp_all
  show "x \<le> y \<Longrightarrow> y \<le> x \<Longrightarrow> x = y"
    by (cases x; cases y) simp_all
  show "x \<le> y \<or> y \<le> x"
    by (cases x; cases y) auto
qed

end

text \<open>\<open>np.argmin\<close>: the index of the first occurrence of the minimum; ValueError on an
  empty sequence. \<open>argmin_from xs k best bi\<close> scans \<open>xs\<close>, whose first element has
  index \<open>k\<close>, with the least value so far \<open>best\<close> found at index \<open>bi\<close>.\<close>

fun argmin_from :: "'a::linorder list \<Rightarrow> nat \<Rightarrow> 'a \<Rightarrow> nat \<Rightarrow> nat" where
  "argmin_from [] k best bi = bi"
| "argmin_from (x # xs) k best bi =
     (if x < best then argmin_from xs (Suc k) x k else argmin_from xs (Suc k) best bi)"

definition argmin_ne :: "'a::linorder \<Rightarrow> 'a list \<Rightarrow> nat" where
  "argmin_ne x xs = argmin_from xs 1 x 0"

definition argmin :: "'a::linorder list \<Rightarrow> error + nat" where
  "argmin xs = (case xs of [] \<Rightarrow> Inl ValueError | x # ys \<Rightarrow> Inr (argmin_ne x ys))"

definition err_bind :: "error + 'a \<Rightarrow> ('a \<Rightarrow> error + 'b) \<Rightarrow> error + 'b" where
  "err_bind m f = (case m of Inl e \<Rightarrow> Inl e | Inr x \<Rightarrow> f x)"

subsection \<open>DPSeamImage.calc\_M\<close>

definition row :: "'a arr \<Rightarrow> nat \<Rightarrow> 'a list" where
  "row a i = rows a ! i"

definition set_row :: "'a arr \<Rightarrow> nat \<Rightarrow> 'a list \<Rightarrow> 'a arr" where
  "set_row a i r = Arr (nrows a) (ncols a) ((rows a)[i := r])"

text \<open>
  One pass of the loop body for row \<open>i\<close> (\<open>1 \<le> i < h\<close>); \<open>acc\<close> is \<open>(M, backtrack_mat)\<close>.
  \<^verbatim>\<open>
  m_prev = M[i - 1]
  CL = self.C_L[i - 1]; CV = self.C_V[i - 1]; CR = self.C_R[i - 1]
  cost_matrix = np.full((3, w), float("inf"))
  cost_matrix[0, 1:] = m_prev[:-1] + CL[1:]
  cost_matrix[1, :] = m_prev + CV
  cost_matrix[2, :-1] = m_prev[1:] + CR[:-1]
  min_indices = np.argmin(cost_matrix, axis=0)
  min_values = cost_matrix[min_indices, np.arange(w)]
  direction_map = np.array([-1, 0, 1])
  self.backtrack_mat[i] = direction_map[min_indices]
  M[i] += min_values
  \<close>
  \<open>E\<close>, \<open>C_L\<close>, \<open>C_V\<close> and \<open>C_R\<close> all have the shape of the current grayscale, so the
  element-wise sums are over rows of one length.
\<close>

definition calc_M_step ::
  "real arr \<Rightarrow> real arr \<Rightarrow> real arr \<Rightarrow> real arr \<Rightarrow> nat \<Rightarrow> cost arr \<times> int arr
   \<Rightarrow> cost arr \<times> int arr" where
  "calc_M_step E CL CV CR i acc =
     (let M = fst acc; bt = snd acc; w = ncols E;
          m_prev = row M (i - 1);
          cl = row CL (i - 1); cv = row CV (i - 1); cr = row CR (i - 1);
          cost0 = take 1 (replicate w PInf)
                  @ map2 (\<lambda>m c. cadd m (Fin c)) (butlast m_prev) (tl cl);
          cost1 = map2 (\<lambda>m c. cadd m (Fin c)) m_prev cv;
          cost2 = map2 (\<lambda>m c. cadd m (Fin c)) (tl m_prev) (butlast cr)
                  @ drop (w - 1) (replicate w PInf);
          min_indices = map (\<lambda>j. argmin_ne (cost0 ! j) [cost1 ! j, cost2 ! j]) [0..<w];
          min_values = map (\<lambda>j. [cost0, cost1, cost2] ! (min_indices ! j) ! j) [0..<w]
      in (set_row M i (map2 cadd (row M i) min_values),
          set_row bt i (map (\<lambda>k. [-1, 0, 1] ! k) min_indices)))"

text \<open>
  \<^verbatim>\<open>
  h, w = self.E.shape
  M = self.E.copy()
  self.backtrack_mat = np.zeros((h, w), dtype=np.int32)
  for i in range(1, h): ...
  return M
  \<close>
  The result is \<open>(M, backtrack_mat)\<close>.
\<close>

definition calc_M ::
  "real arr \<Rightarrow> real arr \<Rightarrow> real arr \<Rightarrow> real arr \<Rightarrow> cost arr \<times> int arr" where
  "calc_M E CL CV CR =
     fold (calc_M_step E CL CV CR) [1..<nrows E]
       (arr_map Fin E, mk_arr (nrows E) (ncols E) (\<lambda>i j. 0))"

subsection \<open>DPSeamImage.find\_minimal\_seam: backtracking\<close>

text \<open>
  \<^verbatim>\<open>
  min_idx = np.argmin(self.M[-1, :])
  seam = [min_idx]
  for i in range(self.h - 2, -1, -1):
      L_V_or_R = self.backtrack_mat[i + 1, min_idx]
      min_idx += L_V_or_R
      min_idx = max(0, min(min_idx, self.w - 2))
      seam.append(min_idx)
  seam.reverse()
  return seam
  \<close>
\<close>

fun dp_walk :: "int arr \<Rightarrow> int \<Rightarrow> nat list \<Rightarrow> int \<Rightarrow> int list \<Rightarrow> error + int list" where
  "dp_walk bt w [] min_idx seam = Inr seam"
| "dp_walk bt w (i # is) min_idx seam =
     (case get2 bt (int i + 1) min_idx of
        Inl e \<Rightarrow> Inl e
      | Inr d \<Rightarrow> dp_walk bt w is (max 0 (min (min_idx + d) (w - 2)))
                  (seam @ [max 0 (min (min_idx + d) (w - 2))]))"

definition dp_backtrack :: "cost arr \<Rightarrow> int arr \<Rightarrow> int \<Rightarrow> int \<Rightarrow> error + int list" where
  "dp_backtrack M bt h w =
     err_bind (py_index (nrows M) (-1)) (\<lambda>l.
     err_bind (argmin (row M l)) (\<lambda>k.
     err_bind (dp_walk bt w (rev [0..<nat (h - 1)]) (int k) [int k]) (\<lambda>seam.
     Inr (rev seam))))"

subsection \<open>GreedySeamImage.find\_minimal\_seam\<close>

text \<open>A candidate \<open>self.E[r][c] + C[r][c]\<close>, with Python indexing.\<close>

definition cand :: "real arr \<Rightarrow> real arr \<Rightarrow> int \<Rightarrow> int \<Rightarrow> error + real" where
  "cand E C r c = err_bind (get2 E r c) (\<lambda>a. err_bind (get2 C r c) (\<lambda>b. Inr (a + b)))"

text \<open>
  \<^verbatim>\<open>
  candidates = []
  if min_idx > 0:
      candidates.append(self.E[i + 1][min_idx - 1] + self.C_L[i + 1][min_idx - 1])
  candidates.append(self.E[i + 1][min_idx] + self.C_V[i + 1][min_idx])
  if min_idx < w - 1:
      candidates.append(self.E[i + 1][min_idx + 1] + self.C_R[i + 1][min_idx + 1])
  \<close>
\<close>

definition greedy_candidates ::
  "real arr \<Rightarrow> real arr \<Rightarrow> real arr \<Rightarrow> real arr \<Rightarrow> nat \<Rightarrow> nat \<Rightarrow> int \<Rightarrow> error + real list" where
  "greedy_candidates E CL CV CR w i min_idx =
     err_bind (if min_idx > 0
               then err_bind (cand E CL (int i + 1) (min_idx - 1)) (\<lambda>x. Inr [x])
               else Inr []) (\<lambda>left.
     err_bind (cand E CV (int i + 1) min_idx) (\<lambda>center.
     err_bind (if min_idx < int w - 1
               then err_bind (cand E CR (int i + 1) (min_idx + 1)) (\<lambda>x. Inr [x])
               else Inr []) (\<lambda>right.
     Inr (left @ [center] @ right))))"

text \<open>
  One step from row \<open>i\<close> to row \<open>i + 1\<close>:
  \<^verbatim>\<open>
  direction = np.argmin(candidates)
  min_idx = min_idx + direction - 1
  \<close>
\<close>

definition greedy_step ::
  "real arr \<Rightarrow> real arr \<Rightarrow> real arr \<Rightarrow> real arr \<Rightarrow> nat \<Rightarrow> nat \<Rightarrow> int \<Rightarrow> error + int" where
  "greedy_step E CL CV CR w i min_idx =
     err_bind (greedy_candidates E CL CV CR w i min_idx) (\<lambda>candidates.
     err_bind (argmin candidates) (\<lambda>direction.
     Inr (min_idx + int direction - 1)))"

text \<open>
  \<^verbatim>\<open>
  for i in range(h):
      seam[i] = min_idx
      if i + 1 < h:
          ...
  return seam.tolist()
  \<close>
\<close>

fun greedy_walk ::
  "real arr \<Rightarrow> real arr \<Rightarrow> real arr \<Rightarrow> real arr \<Rightarrow> nat \<Rightarrow> nat \<Rightarrow> nat list \<Rightarrow> int
   \<Rightarrow> error + int list" where
  "greedy_walk E CL CV CR h w [] min_idx = Inr []"
| "greedy_walk E CL CV CR h w (i # is) min_idx =
     (if i + 1 < h
      then (case greedy_step E CL CV CR w i min_idx of
              Inl e \<Rightarrow> Inl e
            | Inr next_idx \<Rightarrow>
                (case greedy_walk E CL CV CR h w is next_idx of
                   Inl e \<Rightarrow> Inl e
                 | Inr rest \<Rightarrow> Inr (min_idx # rest)))
      else (case greedy_walk E CL CV CR h w is min_idx of
              Inl e \<Rightarrow> Inl e
            | Inr rest \<Rightarrow> Inr (min_idx # rest)))"

text \<open>
  \<^verbatim>\<open>
  h, w = self.E.shape
  self.calc_C()
  seam = np.zeros(h, dtype=int)
  min_idx = np.argmin(self.E[0])
  \<close>
  followed by the loop. \<open>self.E[0]\<close> raises IndexError when \<open>E\<close> has no row.
\<close>

definition greedy_seam :: "real arr \<Rightarrow> real arr \<Rightarrow> real arr \<Rightarrow> real arr \<Rightarrow> error + int list" where
  "greedy_seam E CL CV CR =
     err_bind (py_index (nrows E) 0) (\<lambda>r0.
     err_bind (argmin (row E r0)) (\<lambda>k.
     greedy_walk E CL CV CR (nrows E) (ncols E) [0..<nrows E] (int k)))"

subsection \<open>The carver's state\<close>

text \<open>
  A pixel is its three channels. The record holds the attributes of a \<open>SeamImage\<close> that
  the methods below read or write. \<open>idx_map[i][j]\<close> is the pair
  \<open>(idx_map_h[i][j], idx_map_v[i][j])\<close>, the original (column, row) of the pixel.
  The attributes \<open>path\<close>, \<open>gs_weights\<close>, \<open>gs\<close>, \<open>seam_balance\<close> and \<open>mask\<close> are written
  but never read by these methods and are left out.
\<close>

type_synonym pixel = "real \<times> real \<times> real"

record state =
  rgb :: "pixel arr"
  resized_rgb :: "pixel arr"
  resized_gs :: "real arr"
  vis_seams :: bool
  seams_rgb :: "pixel arr"
  cumm_mask :: "bool arr"
  self_h :: int
  self_w :: int
  self_E :: "real arr"
  seam_history :: "int list list"
  idx_map :: "(nat \<times> nat) arr"
  self_C_V :: "real arr"
  self_C_L :: "real arr"
  self_C_R :: "real arr"
  self_M :: "cost arr"
  backtrack_mat :: "int arr"

datatype strategy = Greedy | DP

subsection \<open>SeamImage.remove\_seam\<close>

definition set_cell :: "'a arr \<Rightarrow> nat \<Rightarrow> nat \<Rightarrow> 'a \<Rightarrow> 'a arr" where
  "set_cell a i j v = Arr (nrows a) (ncols a) ((rows a)[i := (rows a ! i)[j := v]])"

text \<open>
  \<^verbatim>\<open>
  for i in range(h):
      mask[i, seam[i]] = False
  \<close>
  \<open>seam\<close> is a Python list: \<open>seam[i]\<close> raises IndexError beyond its length; the numpy
  index \<open>mask[i, c]\<close> raises IndexError for \<open>c\<close> outside \<open>[-w, w)\<close>.
\<close>

fun mask_loop :: "int list \<Rightarrow> nat list \<Rightarrow> bool arr \<Rightarrow> error + bool arr" where
  "mask_loop seam [] msk = Inr msk"
| "mask_loop seam (i # is) msk =
     (case py_index (length seam) (int i) of
        Inl e \<Rightarrow> Inl e
      | Inr k \<Rightarrow>
          (case py_index (ncols msk) (seam ! k) of
             Inl e \<Rightarrow> Inl e
           | Inr c \<Rightarrow> mask_loop seam is (set_cell msk i c False)))"

text \<open>\<open>a[mask]\<close> with a boolean mask of the shape of \<open>a\<close>'s first two axes: the selected
  cells in row-major order; IndexError when the shapes differ.\<close>

definition bool_select :: "'a arr \<Rightarrow> bool arr \<Rightarrow> error + 'a list" where
  "bool_select a msk =
     (if nrows msk = nrows a \<and> ncols msk = ncols a
      then Inr (map fst (filter snd (zip (concat (rows a)) (concat (rows msk)))))
      else Inl IndexError)"

text \<open>\<open>xs.reshape((h, -1))\<close> (and \<open>(h, -1, 3)\<close>, \<open>(h, -1, 2)\<close> on cells of 3 or 2
  numbers): ValueError when \<open>h = 0\<close> or \<open>h\<close> does not divide the number of cells.\<close>

definition reshape_rows :: "nat \<Rightarrow> 'a list \<Rightarrow> error + 'a arr" where
  "reshape_rows h xs =
     (if h = 0 \<or> length xs mod h \<noteq> 0 then Inl ValueError
      else Inr (mk_arr h (length xs div h) (\<lambda>i j. xs ! (i * (length xs div h) + j))))"

definition masked_reshape :: "nat \<Rightarrow> 'a arr \<Rightarrow> bool arr \<Rightarrow> error + 'a arr" where
  "masked_reshape h a msk = err_bind (bool_select a msk) (reshape_rows h)"

text \<open>
  \<^verbatim>\<open>
  h = self.resized_rgb.shape[0]
  mask = np.ones((h, self.resized_rgb.shape[1]), dtype=bool)
  for i in range(h):
      mask[i, seam[i]] = False
  self.resized_rgb = self.resized_rgb[mask].reshape((h, -1, 3))
  self.resized_gs = self.resized_gs[mask].reshape((h, -1))
  if self.vis_seams:
      self.idx_map = self.idx_map[mask].reshape((h, -1, 2))
  self.w -= 1
  \<close>
  The result is the exception raised, if any, and the state the object is left in.
\<close>

definition remove_seam :: "state \<Rightarrow> int list \<Rightarrow> error option \<times> state" where
  "remove_seam st seam =
     (let h = nrows (resized_rgb st) in
      case mask_loop seam [0..<h] (mk_arr h (ncols (resized_rgb st)) (\<lambda>i j. True)) of
        Inl e \<Rightarrow> (Some e, st)
      | Inr msk \<Rightarrow>
         (case masked_reshape h (resized_rgb st) msk of
            Inl e \<Rightarrow> (Some e, st)
          | Inr rgb' \<Rightarrow>
             (case masked_reshape h (resized_gs st) msk of
                Inl e \<Rightarrow> (Some e, st\<lparr>resized_rgb := rgb'\<rparr>)
              | Inr gs' \<Rightarrow>
                 (if vis_seams st
                  then (case masked_reshape h (idx_map st) msk of
                          Inl e \<Rightarrow> (Some e, st\<lparr>resized_rgb := rgb', resized_gs := gs'\<rparr>)
                        | Inr im' \<Rightarrow>
                            (None, st\<lparr>resized_rgb := rgb', resized_gs := gs',
                                      idx_map := im', self_w := self_w st - 1\<rparr>))
                  else (None, st\<lparr>resized_rgb := rgb', resized_gs := gs',
                                  self_w := self_w st - 1\<rparr>)))))"

subsection \<open>SeamImage.rotate\_mats\<close>

text \<open>\<open>np.flip\<close> along an axis, the transposition of the first two axes, and
  \<open>np.rot90(m, k=1, axes)\<close>, which numpy computes as
  \<open>transpose(flip(m, axes[1]))\<close> with the two axes swapped.\<close>

definition flip_axis :: "nat \<Rightarrow> 'a arr \<Rightarrow> 'a arr" where
  "flip_axis ax a =
     (if ax = 0 then mk_arr (nrows a) (ncols a) (\<lambda>i j. cell a (nrows a - 1 - i) j)
      else mk_arr (nrows a) (ncols a) (\<lambda>i j. cell a i (ncols a - 1 - j)))"

definition transpose_arr :: "'a arr \<Rightarrow> 'a arr" where
  "transpose_arr a = mk_arr (ncols a) (nrows a) (\<lambda>i j. cell a j i)"

definition rot90 :: "nat \<times> nat \<Rightarrow> 'a arr \<Rightarrow> 'a arr" where
  "rot90 axes a = transpose_arr (flip_axis (snd axes) a)"

text \<open>
  \<^verbatim>\<open>
  mat = (1, 0) if clockwise else (0, 1)
  self.resized_gs = np.rot90(self.resized_gs, k=1, axes=mat)
  self.resized_rgb = np.rot90(self.resized_rgb, k=1, axes=mat)
  self.h, self.w = self.w, self.h
  if self.vis_seams:
      self.idx_map = np.rot90(self.idx_map, k=1, axes=mat)
  \<close>
\<close>

definition rotate_mats :: "bool \<Rightarrow> state \<Rightarrow> state" where
  "rotate_mats clockwise st =
     (let mat = (if clockwise then (1, 0) else (0, 1)) in
      st\<lparr>resized_gs := rot90 mat (resized_gs st),
         resized_rgb := rot90 mat (resized_rgb st),
         self_h := self_w st,
         self_w := self_h st,
         idx_map := (if vis_seams st then rot90 mat (idx_map st) else idx_map st)\<rparr>)"

subsection \<open>SeamImage.paint\_seams\<close>

text \<open>The length of the slice \<open>xs[:k]\<close> of a sequence of length \<open>n\<close>.\<close>

definition slice_end :: "nat \<Rightarrow> int \<Rightarrow> nat" where
  "slice_end n k = (if 0 \<le> k then min (nat k) n else nat (int n + k))"

text \<open>
  \<^verbatim>\<open>
  self.cumm_mask = np.zeros_like(self.rgb, dtype=bool)
  self.cumm_mask[self.idx_map[: self.h, : self.w, 1],
                 self.idx_map[: self.h, : self.w, 0]] = True
  self.seams_rgb = np.where(self.cumm_mask, self.rgb, [1, 0, 0])
  \<close>
  The index arrays hold rows and columns of the original image; one that is out of its
  bounds raises IndexError.
\<close>

definition paint_seams :: "state \<Rightarrow> error + state" where
  "paint_seams st =
     (let sub = mk_arr (slice_end (nrows (idx_map st)) (self_h st))
                       (slice_end (ncols (idx_map st)) (self_w st)) (cell (idx_map st));
          live = concat (rows sub)
      in if list_all (\<lambda>p. snd p < nrows (rgb st) \<and> fst p < ncols (rgb st)) live
         then Inr (st\<lparr>cumm_mask :=
                          mk_arr (nrows (rgb st)) (ncols (rgb st)) (\<lambda>r c. (c, r) \<in> set live),
                       seams_rgb :=
                          mk_arr (nrows (rgb st)) (ncols (rgb st))
                            (\<lambda>r c. if (c, r) \<in> set live then cell (rgb st) r c else (1, 0, 0))\<rparr>)
         else Inl IndexError)"

subsection \<open>find\_minimal\_seam of the two subclasses, on the state\<close>

text \<open>
  \<^verbatim>\<open>
  def init_mats(self):
      self.backtrack_mat = np.zeros_like(self.E, dtype=int)
      self.calc_C()
      self.M = self.calc_M()
  \<close>
  \<open>calc_M\<close> assigns \<open>self.backtrack_mat\<close> and returns \<open>M\<close>.
\<close>

definition init_mats :: "state \<Rightarrow> state" where
  "init_mats st =
     (let cs = calc_C (resized_gs st);
          mb = calc_M (self_E st) (fst (snd cs)) (fst cs) (snd (snd cs))
      in st\<lparr>self_C_V := fst cs, self_C_L := fst (snd cs), self_C_R := snd (snd cs),
            self_M := fst mb, backtrack_mat := snd mb\<rparr>)"

definition find_minimal_seam :: "strategy \<Rightarrow> state \<Rightarrow> error + int list \<times> state" where
  "find_minimal_seam strat st =
     (case strat of
        Greedy \<Rightarrow>
          (let cs = calc_C (resized_gs st);
               st1 = st\<lparr>self_C_V := fst cs, self_C_L := fst (snd cs), self_C_R := snd (snd cs)\<rparr>
           in err_bind (greedy_seam (self_E st1) (self_C_L st1) (self_C_V st1) (self_C_R st1))
                (\<lambda>seam. Inr (seam, st1)))
      | DP \<Rightarrow>
          (let st1 = init_mats st
           in err_bind (dp_backtrack (self_M st1) (backtrack_mat st1) (self_h st1) (self_w st1))
                (\<lambda>seam. Inr (seam, st1))))"

subsection \<open>SeamImage.seams\_removal and its wrappers\<close>

text \<open>
  \<^verbatim>\<open>
  for _ in tqdm(range(num_remove)):
      self.E = self.calc_gradient_magnitude()
      self.mask = np.ones_like(self.E, dtype=bool)
      seam = self.find_minimal_seam()
      self.seam_history.append(seam)
      self.remove_seam(seam)
  if self.vis_seams:
      self.paint_seams()
  \<close>
  \<open>range(num_remove)\<close> is empty for \<open>num_remove \<le> 0\<close>. An exception ends the call.
\<close>

fun seams_removal_loop :: "strategy \<Rightarrow> nat \<Rightarrow> state \<Rightarrow> error + state" where
  "seams_removal_loop strat 0 st = Inr st"
| "seams_removal_loop strat (Suc n) st =
     (case find_minimal_seam strat (st\<lparr>self_E := calc_gradient_magnitude (resized_gs st)\<rparr>) of
        Inl e \<Rightarrow> Inl e
      | Inr found \<Rightarrow>
          (case remove_seam ((snd found)\<lparr>seam_history := seam_history (snd found) @ [fst found]\<rparr>)
                  (fst found) of
             (Some e, st2) \<Rightarrow> Inl e
           | (None, st2) \<Rightarrow> seams_removal_loop strat n st2))"

definition seams_removal :: "strategy \<Rightarrow> int \<Rightarrow> state \<Rightarrow> error + state" where
  "seams_removal strat num_remove st =
     err_bind (seams_removal_loop strat (nat num_remove) st)
       (\<lambda>st1. if vis_seams st1 then paint_seams st1 else Inr st1)"

definition seams_removal_vertical :: "strategy \<Rightarrow> int \<Rightarrow> state \<Rightarrow> error + state" where
  "seams_removal_vertical strat num_remove st = seams_removal strat num_remove st"

text \<open>
  \<^verbatim>\<open>
  self.rotate_mats(True)
  self.seams_removal(num_remove)
  self.rotate_mats(False)
  \<close>
\<close>

definition seams_removal_horizontal :: "strategy \<Rightarrow> int \<Rightarrow> state \<Rightarrow> error + state" where
  "seams_removal_horizontal strat num_remove st =
     err_bind (seams_removal strat num_remove (rotate_mats True st))
       (\<lambda>st1. Inr (rotate_mats False st1))"

subsection \<open>SeamImage.\_\_init\_\_, reinit and resize\_seam\_carving\<close>

text \<open>\<open>(np_img @ self.gs_weights).squeeze()\<close>, cell by cell.\<close>

definition rgb_to_grayscale :: "pixel arr \<Rightarrow> real arr" where
  "rgb_to_grayscale np_img =
     arr_map (\<lambda>p. 299 / 1000 * fst p + 587 / 1000 * fst (snd p) + 114 / 1000 * snd (snd p)) np_img"

text \<open>
  The constructor, applied to the image \<open>img\<close> that \<open>load_image\<close> returns (decoding is
  outside this file) and to the attributes \<open>st\<close> the object had before; the attributes
  the constructor does not assign keep their value.
  \<^verbatim>\<open>
  self.rgb = self.load_image(img_path)
  self.resized_rgb = self.rgb.copy()
  self.vis_seams = vis_seams
  if vis_seams:
      self.seams_rgb = self.rgb.copy()
  self.h, self.w = self.rgb.shape[:2]
  self.gs = self.rgb_to_grayscale(self.rgb)
  self.resized_gs = self.gs.copy()
  self.cumm_mask = np.ones_like(self.gs, dtype=bool)
  self.E = self.calc_gradient_magnitude()
  self.seam_history = []
  self.idx_map_h, self.idx_map_v = np.meshgrid(range(self.w), range(self.h))
  self.idx_map = np.stack([self.idx_map_h, self.idx_map_v], axis=2)
  \<close>
  and, in \<open>DPSeamImage\<close>, \<open>self.init_mats()\<close>. For an image with one row or one column
  \<open>squeeze\<close> drops that axis too, the grayscale is no longer two-dimensional, and
  \<open>np.pad\<close> with a two-axis pad width raises ValueError, which the constructor does not
  catch.
\<close>

definition SeamImage_init :: "strategy \<Rightarrow> pixel arr \<Rightarrow> bool \<Rightarrow> state \<Rightarrow> error + state" where
  "SeamImage_init strat img vis st =
     (if nrows img = 1 \<or> ncols img = 1 then Inl ValueError
      else
        (let gs = rgb_to_grayscale img;
             st1 = st\<lparr>rgb := img,
                      resized_rgb := img,
                      vis_seams := vis,
                      seams_rgb := (if vis then img else seams_rgb st),
                      self_h := int (nrows img),
                      self_w := int (ncols img),
                      resized_gs := gs,
                      cumm_mask := mk_arr (nrows img) (ncols img) (\<lambda>i j. True),
                      self_E := calc_gradient_magnitude gs,
                      seam_history := [],
                      idx_map := mk_arr (nrows img) (ncols img) (\<lambda>i j. (j, i))\<rparr>
         in Inr (case strat of Greedy \<Rightarrow> st1 | DP \<Rightarrow> init_mats st1)))"

text \<open>\<open>reinit\<close> calls \<open>self.__init__(img_path=...)\<close>, so \<open>vis_seams\<close> takes its default
  \<open>True\<close>.\<close>

definition reinit :: "strategy \<Rightarrow> pixel arr \<Rightarrow> state \<Rightarrow> error + state" where
  "reinit strat img st = SeamImage_init strat img True st"

text \<open>
  \<^verbatim>\<open>
  seam_img.reinit()
  height_diff = shapes[0][0] - shapes[1][0]
  width_diff = shapes[0][1] - shapes[1][1]
  seam_img.seams_removal_vertical(width_diff)
  seam_img.seams_removal_horizontal(height_diff)
  return seam_img.resized_rgb
  \<close>
  The model returns the whole final state; the function's value is its \<open>resized_rgb\<close>.
\<close>

definition resize_seam_carving ::
  "strategy \<Rightarrow> pixel arr \<Rightarrow> state \<Rightarrow> (int \<times> int) \<times> (int \<times> int) \<Rightarrow> error + state" where
  "resize_seam_carving strat img seam_img shapes =
     err_bind (reinit strat img seam_img) (\<lambda>st0.
       (let height_diff = fst (fst shapes) - fst (snd shapes);
            width_diff = snd (fst shapes) - snd (snd shapes)
        in err_bind (seams_removal_vertical strat width_diff st0)
             (seams_removal_horizontal strat height_diff)))"

text \<open>An object before its constructor has run: every array empty.\<close>

definition blank :: state where
  "blank = \<lparr>rgb = Arr 0 0 [], resized_rgb = Arr 0 0 [], resized_gs = Arr 0 0 [],
            vis_seams = False, seams_rgb = Arr 0 0 [], cumm_mask = Arr 0 0 [],
            self_h = 0, self_w = 0, self_E = Arr 0 0 [], seam_history = [],
            idx_map = Arr 0 0 [], self_C_V = Arr 0 0 [], self_C_L = Arr 0 0 [],
            self_C_R = Arr 0 0 [], self_M = Arr 0 0 [], backtrack_mat = Arr 0 0 []\<rparr>"

subsection \<open>What a removal does, in the words of the specification\<close>

text \<open>
  The column that \<open>mask[i, seam[i]] = False\<close> clears in row \<open>i\<close> (a negative entry
  counts from the right end), the seams for which the loop over the rows raises no
  IndexError, the mask the loop builds, and the array with that column deleted from
  every row, the remaining cells keeping their order.
\<close>

definition seam_col :: "nat \<Rightarrow> int list \<Rightarrow> nat \<Rightarrow> nat" where
  "seam_col w seam i = (if 0 \<le> seam ! i then nat (seam ! i) else nat (int w + seam ! i))"

definition seam_ok :: "nat \<Rightarrow> nat \<Rightarrow> int list \<Rightarrow> bool" where
  "seam_ok h w seam \<longleftrightarrow>
     h \<le> length seam \<and> list_all (\<lambda>i. - int w \<le> seam ! i \<and> seam ! i < int w) [0..<h]"

definition seam_mask :: "nat \<Rightarrow> nat \<Rightarrow> (nat \<Rightarrow> nat) \<Rightarrow> bool arr" where
  "seam_mask h w c = mk_arr h w (\<lambda>i j. j \<noteq> c i)"

definition delete_cols :: "'a arr \<Rightarrow> (nat \<Rightarrow> nat) \<Rightarrow> 'a arr" where
  "delete_cols a c = mk_arr (nrows a) (ncols a - 1) (\<lambda>i j. cell a i (if j < c i then j else j + 1))"

subsection \<open>The states of a carving session\<close>

text \<open>
  The states a carver with \<open>vis_seams\<close> set can be in: after the constructor on a loaded
  image, and then after any successful \<open>remove_seam\<close> (with whatever seam),
  \<open>rotate_mats\<close>, \<open>seams_removal\<close> (the vertical wrapper) or \<open>seams_removal_horizontal\<close>.
  \<open>carver_inv h0 w0\<close> is what all of them satisfy for an \<open>h0 \<times> w0\<close> original: the three
  buffers are arrays of the stored height and width, and the index map holds pairwise
  different coordinates of the original image.
\<close>

definition carver_inv :: "nat \<Rightarrow> nat \<Rightarrow> state \<Rightarrow> bool" where
  "carver_inv h0 w0 st \<longleftrightarrow>
     wf_arr (resized_rgb st) \<and> wf_arr (resized_gs st) \<and> wf_arr (idx_map st)
     \<and> int (nrows (resized_rgb st)) = self_h st \<and> int (ncols (resized_rgb st)) = self_w st
     \<and> nrows (resized_gs st) = nrows (resized_rgb st)
     \<and> ncols (resized_gs st) = ncols (resized_rgb st)
     \<and> nrows (idx_map st) = nrows (resized_rgb st)
     \<and> ncols (idx_map st) = ncols (resized_rgb st)
     \<and> vis_seams st
     \<and> nrows (rgb st) = h0 \<and> ncols (rgb st) = w0
     \<and> (\<forall>i<nrows (idx_map st). \<forall>j<ncols (idx_map st).
           fst (cell (idx_map st) i j) < w0 \<and> snd (cell (idx_map st) i j) < h0)
     \<and> (\<forall>i<nrows (idx_map st). \<forall>j<ncols (idx_map st).
         \<forall>i'<nrows (idx_map st). \<forall>j'<ncols (idx_map st).
           cell (idx_map st) i j = cell (idx_map st) i' j' \<longrightarrow> i = i' \<and> j = j')"

inductive reachable :: "strategy \<Rightarrow> pixel arr \<Rightarrow> state \<Rightarrow> bool" for strat img where
  start: "wf_arr img \<Longrightarrow> SeamImage_init strat img True prev = Inr st \<Longrightarrow> reachable strat img st"
| remove: "reachable strat img st \<Longrightarrow> remove_seam st seam = (None, st') \<Longrightarrow> reachable strat img st'"
| rotate: "reachable strat img st \<Longrightarrow> reachable strat img (rotate_mats clockwise st)"
| removal: "reachable strat img st \<Longrightarrow> seams_removal strat n st = Inr st' \<Longrightarrow> reachable strat img st'"
| horizontal: "reachable strat img st \<Longrightarrow> seams_removal_horizontal strat n st = Inr st'
     \<Longrightarrow> reachable strat img st'"

text \<open>Two states that differ at most in the grids derived per iteration and in the
  visualisation.\<close>

definition same_core :: "state \<Rightarrow> state \<Rightarrow> bool" where
  "same_core st st' \<longleftrightarrow>
     resized_rgb st' = resized_rgb st \<and> resized_gs st' = resized_gs st
     \<and> idx_map st' = idx_map st \<and> self_h st' = self_h st \<and> self_w st' = self_w st
     \<and> vis_seams st' = vis_seams st \<and> rgb st' = rgb st \<and> seam_history st' = seam_history st"

text \<open>\<open>M\<close> and \<open>backtrack_mat\<close> are arrays of the shape \<open>h \<times> w\<close>.\<close>

definition dp_shape :: "nat \<Rightarrow> nat \<Rightarrow> cost arr \<times> int arr \<Rightarrow> bool" where
  "dp_shape h w acc \<longleftrightarrow>
     wf_arr (fst acc) \<and> nrows (fst acc) = h \<and> ncols (fst acc) = w
     \<and> wf_arr (snd acc) \<and> nrows (snd acc) = h \<and> ncols (snd acc) = w"

text \<open>The entries of \<open>backtrack_mat\<close> are directions, and a seam is connected when
  adjacent entries differ by at most one.\<close>

definition dirs_ok :: "int arr \<Rightarrow> bool" where
  "dirs_ok bt \<longleftrightarrow> (\<forall>r\<in>set (rows bt). \<forall>x\<in>set r. x = - 1 \<or> x = 0 \<or> x = 1)"

definition seam_connected :: "int list \<Rightarrow> bool" where
  "seam_connected seam \<longleftrightarrow> (\<forall>i. i + 1 < length seam \<longrightarrow> \<bar>seam ! (i + 1) - seam ! i\<bar> \<le> 1)"

subsection \<open>Concrete inputs\<close>

definition gs_2x2 :: "real arr" where
  "gs_2x2 = Arr 2 2 [[0, 1], [1 / 4, 1]]"

definition gs_black_2x3 :: "real arr" where
  "gs_black_2x3 = Arr 2 3 [[0, 0, 0], [0, 0, 0]]"

definition gs_3x2 :: "real arr" where
  "gs_3x2 = Arr 3 2 [[0, 0], [1, 1], [1, 1]]"

definition img_2x3 :: "pixel arr" where
  "img_2x3 = Arr 2 3 [[(0, 0, 0), (1, 1, 1), (0, 0, 0)], [(1, 1, 1), (1, 1, 1), (0, 0, 0)]]"

definition carver_2x3 :: state where
  "carver_2x3 = (case SeamImage_init Greedy img_2x3 True blank of Inr st \<Rightarrow> st | Inl e \<Rightarrow> blank)"

definition carver_2x3_plain :: state where
  "carver_2x3_plain =
     (case SeamImage_init Greedy img_2x3 False blank of Inr st \<Rightarrow> st | Inl e \<Rightarrow> blank)"

definition img_black_10x10 :: "pixel arr" where
  "img_black_10x10 = mk_arr 10 10 (\<lambda>i j. (0, 0, 0))"

definition img_black_2x3 :: "pixel arr" where
  "img_black_2x3 = Arr 2 3 [[(0, 0, 0), (0, 0, 0), (0, 0, 0)], [(0, 0, 0), (0, 0, 0), (0, 0, 0)]]"

section \<open>Facts about arrays\<close>

lemma nrows_mk_arr [simp]: "nrows (mk_arr m n f) = m"
  by (simp add: mk_arr_def)

lemma ncols_mk_arr [simp]: "ncols (mk_arr m n f) = n"
  by (simp add: mk_arr_def)

lemma wf_arr_mk_arr [simp]: "wf_arr (mk_arr m n f)"
  by (simp add: mk_arr_def wf_arr_def list_all_iff)

lemma cell_mk_arr [simp]: "i < m \<Longrightarrow> j < n \<Longrightarrow> cell (mk_arr m n f) i j = f i j"
  by (simp add: mk_arr_def cell_def)

lemma rows_mk_arr: "rows (mk_arr m n f) = map (\<lambda>i. map (f i) [0..<n]) [0..<m]"
  by (simp add: mk_arr_def)

lemma wf_arr_row_length: "wf_arr a \<Longrightarrow> i < nrows a \<Longrightarrow> length (rows a ! i) = ncols a"
  by (simp add: wf_arr_def list_all_length)

lemma mk_arr_cell: "wf_arr a \<Longrightarrow> mk_arr (nrows a) (ncols a) (cell a) = a"
proof -
  assume w: "wf_arr a"
  have "map (\<lambda>i. map (cell a i) [0..<ncols a]) [0..<nrows a] = rows a"
  proof (rule nth_equalityI)
    show "length (map (\<lambda>i. map (cell a i) [0..<ncols a]) [0..<nrows a]) = length (rows a)"
      using w by (simp add: wf_arr_def)
  next
    fix i assume "i < length (map (\<lambda>i. map (cell a i) [0..<ncols a]) [0..<nrows a])"
    then have i: "i < nrows a" by simp
    have "map (cell a i) [0..<ncols a] = rows a ! i"
      by (rule nth_equalityI) (simp_all add: wf_arr_row_length [OF w i] cell_def)
    with i show "map (\<lambda>i. map (cell a i) [0..<ncols a]) [0..<nrows a] ! i = rows a ! i"
      by simp
  qed
  then show ?thesis
    by (cases a) (simp add: mk_arr_def)
qed

lemma mk_arr_cong:
  "(\<And>i j. i < m \<Longrightarrow> j < n \<Longrightarrow> f i j = g i j) \<Longrightarrow> mk_arr m n f = mk_arr m n g"
  by (simp add: mk_arr_def)

lemma nrows_arr_map [simp]: "nrows (arr_map f a) = nrows a"
  by (simp add: arr_map_def)

lemma ncols_arr_map [simp]: "ncols (arr_map f a) = ncols a"
  by (simp add: arr_map_def)

lemma wf_arr_map [simp]: "wf_arr (arr_map f a)"
  by (simp add: arr_map_def)

lemma cell_arr_map [simp]:
  "i < nrows a \<Longrightarrow> j < ncols a \<Longrightarrow> cell (arr_map f a) i j = f (cell a i j)"
  by (simp add: arr_map_def)

lemma nrows_arr_map2 [simp]: "nrows (arr_map2 f a b) = nrows a"
  by (simp add: arr_map2_def)

lemma ncols_arr_map2 [simp]: "ncols (arr_map2 f a b) = ncols a"
  by (simp add: arr_map2_def)

lemma wf_arr_map2 [simp]: "wf_arr (arr_map2 f a b)"
  by (simp add: arr_map2_def)

lemma cell_arr_map2 [simp]:
  "i < nrows a \<Longrightarrow> j < ncols a \<Longrightarrow> cell (arr_map2 f a b) i j = f (cell a i j) (cell b i j)"
  by (simp add: arr_map2_def)

lemma nrows_roll_axis0 [simp]: "nrows (roll_axis0 s a) = nrows a"
  by (simp add: roll_axis0_def)

lemma ncols_roll_axis0 [simp]: "ncols (roll_axis0 s a) = ncols a"
  by (simp add: roll_axis0_def)

lemma nrows_roll_axis1 [simp]: "nrows (roll_axis1 s a) = nrows a"
  by (simp add: roll_axis1_def)

lemma ncols_roll_axis1 [simp]: "ncols (roll_axis1 s a) = ncols a"
  by (simp add: roll_axis1_def)

lemma cell_roll_axis0:
  "i < nrows a \<Longrightarrow> j < ncols a \<Longrightarrow>
   cell (roll_axis0 s a) i j = cell a (nat ((int i - s) mod int (nrows a))) j"
  by (simp add: roll_axis0_def)

lemma cell_roll_axis1:
  "i < nrows a \<Longrightarrow> j < ncols a \<Longrightarrow>
   cell (roll_axis1 s a) i j = cell a i (nat ((int j - s) mod int (ncols a)))"
  by (simp add: roll_axis1_def)

lemma roll_next: "i < n \<Longrightarrow> nat ((int i - (-1)) mod int n) = (i + 1) mod n"
proof -
  have "(int i - (-1)) mod int n = int ((i + 1) mod n)"
    by (simp add: zmod_int add.commute)
  then show ?thesis by simp
qed

lemma roll_prev: "i < n \<Longrightarrow> nat ((int i - 1) mod int n) = (i + n - 1) mod n"
proof -
  assume "i < n"
  have "(int i - 1) mod int n = (int i - 1 + int n) mod int n"
    by simp
  also have "int i - 1 + int n = int (i + n - 1)"
    using \<open>i < n\<close> by (simp add: of_nat_diff)
  finally have "(int i - 1) mod int n = int ((i + n - 1) mod n)"
    by (simp add: zmod_int)
  then show ?thesis by simp
qed

lemma cell_roll_next_row:
  "i < nrows a \<Longrightarrow> j < ncols a \<Longrightarrow>
   cell (roll_axis0 (-1) a) i j = cell a ((i + 1) mod nrows a) j"
  by (simp only: cell_roll_axis0 roll_next)

lemma cell_roll_prev_row:
  "i < nrows a \<Longrightarrow> j < ncols a \<Longrightarrow>
   cell (roll_axis0 1 a) i j = cell a ((i + nrows a - 1) mod nrows a) j"
  by (simp only: cell_roll_axis0 roll_prev)

lemma cell_roll_prev_col:
  "i < nrows a \<Longrightarrow> j < ncols a \<Longrightarrow>
   cell (roll_axis1 1 a) i j = cell a i ((j + ncols a - 1) mod ncols a)"
  by (simp only: cell_roll_axis1 roll_prev)

lemma prev_index_pos: "0 < j \<Longrightarrow> j < n \<Longrightarrow> (j + n - 1) mod n = j - (1::nat)"
proof -
  assume "0 < j" "j < n"
  then have "j + n - 1 = (j - 1) + n" by simp
  then have "(j + n - 1) mod n = (j - 1) mod n" by simp
  with \<open>j < n\<close> show ?thesis by simp
qed

lemma prev_index_zero: "0 < n \<Longrightarrow> (0 + n - 1) mod n = n - (1::nat)"
  by simp

lemma unit_diff_sq:
  "0 \<le> a \<Longrightarrow> a \<le> 1 \<Longrightarrow> 0 \<le> b \<Longrightarrow> b \<le> 1 \<Longrightarrow> (a - b)\<^sup>2 \<le> (1::real)"
proof -
  assume "0 \<le> a" "a \<le> 1" "0 \<le> b" "b \<le> 1"
  then have "\<bar>a - b\<bar> \<le> 1" by simp
  then show ?thesis by (simp add: abs_square_le_1)
qed

lemma cell_pad_end:
  "i \<le> nrows a \<Longrightarrow> j \<le> ncols a \<Longrightarrow>
   cell (pad_end c a) i j = (if i < nrows a \<and> j < ncols a then cell a i j else c)"
  by (simp add: pad_end_def)

lemma shape_gradient [simp]:
  "nrows (calc_gradient_magnitude gs) = nrows gs"
  "ncols (calc_gradient_magnitude gs) = ncols gs"
  "wf_arr (calc_gradient_magnitude gs)"
  by (simp_all add: calc_gradient_magnitude_def Let_def pad_end_def diff_axis0_def
      diff_axis1_def drop_last_col_def drop_last_row_def)

lemma cell_gradient:
  assumes "i < nrows gs" "j < ncols gs"
  shows "cell (calc_gradient_magnitude gs) i j =
     sqrt ((cell (pad_end (1 / 2) gs) (i + 1) j - cell (pad_end (1 / 2) gs) i j)\<^sup>2
          + (cell (pad_end (1 / 2) gs) i (j + 1) - cell (pad_end (1 / 2) gs) i j)\<^sup>2)"
  using assms
  by (simp add: calc_gradient_magnitude_def Let_def diff_axis0_def diff_axis1_def
      drop_last_col_def drop_last_row_def pad_end_def)

subsection \<open>Evaluation of the grids on the concrete inputs\<close>

lemmas arr_eval =
  calc_gradient_magnitude_def Let_def pad_end_def diff_axis0_def diff_axis1_def
  drop_last_col_def drop_last_row_def arr_map_def arr_map2_def mk_arr_def cell_def
  power2_eq_square real_sqrt_divide upt_conv_Cons calc_C_def roll_axis0_def roll_axis1_def

lemma E_black_2x3:
  "calc_gradient_magnitude gs_black_2x3 = Arr 2 3 [[0, 0, 1 / 2], [1 / 2, 1 / 2, sqrt (1 / 2)]]"
  by (simp add: gs_black_2x3_def arr_eval)

lemma C_black_2x3:
  "calc_C gs_black_2x3 =
     (Arr 2 3 [[0, 0, 0], [0, 0, 0]], Arr 2 3 [[0, 0, 0], [0, 0, 0]],
      Arr 2 3 [[0, 0, 0], [0, 0, 0]])"
  by (simp add: gs_black_2x3_def arr_eval)

lemma E_3x2:
  "calc_gradient_magnitude gs_3x2 = Arr 3 2 [[1, sqrt (5 / 4)], [0, 1 / 2], [1 / 2, sqrt (1 / 2)]]"
  by (simp add: gs_3x2_def arr_eval)

lemma C_3x2:
  "calc_C gs_3x2 =
     (Arr 3 2 [[0, 0], [1, 1], [1, 1]], Arr 3 2 [[1, 1], [2, 2], [1, 1]],
      Arr 3 2 [[1, 1], [1, 1], [2, 2]])"
  by (simp add: gs_3x2_def arr_eval)

lemma sqrt_5_4_bounds:
  "sqrt (5 / 4) < 3 / 2" "\<not> 3 / 2 + sqrt (5 / 4) \<le> 2"
proof -
  have "sqrt (5 / 4) < sqrt ((3 / 2)\<^sup>2)"
    by (intro real_sqrt_less_mono) (simp add: power2_eq_square)
  then show "sqrt (5 / 4) < 3 / 2" by simp
  have "1 < sqrt (5 / 4)" by simp
  then show "\<not> 3 / 2 + sqrt (5 / 4) \<le> 2" by linarith
qed

lemma M_3x2:
  "fst (calc_M (calc_gradient_magnitude gs_3x2) (C_L_of gs_3x2) (C_V_of gs_3x2) (C_R_of gs_3x2))
   = Arr 3 2 [[Fin 1, Fin (sqrt (5 / 4))], [Fin 1, Fin (1 / 2 + sqrt (5 / 4))],
              [Fin (5 / 2), Fin (sqrt (1 / 2) + (3 / 2 + sqrt (5 / 4)))]]"
  using sqrt_5_4_bounds(1)
  by (simp add: E_3x2 C_3x2 C_L_of_def C_V_of_def C_R_of_def calc_M_def calc_M_step_def
      Let_def row_def set_row_def argmin_ne_def arr_map_def mk_arr_def cell_def upt_conv_Cons
      less_cost_def sqrt_5_4_bounds(2))

subsection \<open>Rotation\<close>

lemma arr_eqI:
  assumes "wf_arr a" "wf_arr b" "nrows a = nrows b" "ncols a = ncols b"
    and "\<And>i j. i < nrows b \<Longrightarrow> j < ncols b \<Longrightarrow> cell a i j = cell b i j"
  shows "a = b"
proof -
  have "a = mk_arr (nrows a) (ncols a) (cell a)" using assms(1) by (simp add: mk_arr_cell)
  also have "\<dots> = mk_arr (nrows b) (ncols b) (cell b)"
    unfolding assms(3,4) by (rule mk_arr_cong) (rule assms(5))
  also have "\<dots> = b" using assms(2) by (simp add: mk_arr_cell)
  finally show ?thesis .
qed

lemma shape_rot90 [simp]:
  "nrows (rot90 axes a) = ncols a" "ncols (rot90 axes a) = nrows a" "wf_arr (rot90 axes a)"
  by (simp_all add: rot90_def transpose_arr_def flip_axis_def)

lemma cell_rot90_cw:
  "i < ncols a \<Longrightarrow> j < nrows a \<Longrightarrow>
   cell (rot90 (Suc 0, 0) a) i j = cell a (nrows a - 1 - j) i"
  by (simp add: rot90_def transpose_arr_def flip_axis_def)

lemma cell_rot90_ccw:
  "i < ncols a \<Longrightarrow> j < nrows a \<Longrightarrow>
   cell (rot90 (0, Suc 0) a) i j = cell a j (ncols a - 1 - i)"
  by (simp add: rot90_def transpose_arr_def flip_axis_def)

lemma rot90_ccw_cw: "wf_arr a \<Longrightarrow> rot90 (0, Suc 0) (rot90 (Suc 0, 0) a) = a"
  by (rule arr_eqI) (simp_all add: cell_rot90_cw cell_rot90_ccw)

lemma rot90_cw_ccw: "wf_arr a \<Longrightarrow> rot90 (Suc 0, 0) (rot90 (0, Suc 0) a) = a"
  by (rule arr_eqI) (simp_all add: cell_rot90_cw cell_rot90_ccw)

lemma carver_2x3_init: "SeamImage_init Greedy img_2x3 True blank = Inr carver_2x3"
  by (simp add: carver_2x3_def SeamImage_init_def img_2x3_def Let_def)

lemma carver_2x3_fields:
  "resized_rgb carver_2x3 = img_2x3"
  "resized_gs carver_2x3 = rgb_to_grayscale img_2x3"
  "idx_map carver_2x3 = mk_arr 2 3 (\<lambda>i j. (j, i))"
  "vis_seams carver_2x3"
  "self_h carver_2x3 = 2"
  "self_w carver_2x3 = 3"
  "rgb carver_2x3 = img_2x3"
  by (simp_all add: carver_2x3_def SeamImage_init_def img_2x3_def Let_def)

lemma wf_img_2x3: "wf_arr img_2x3" "nrows img_2x3 = 2" "ncols img_2x3 = 3"
  by (simp_all add: img_2x3_def wf_arr_def)

subsection \<open>Removing a seam\<close>

lemma py_index_Inr:
  "- int n \<le> i \<Longrightarrow> i < int n \<Longrightarrow> py_index n i = Inr (if 0 \<le> i then nat i else nat (int n + i))"
  by (simp add: py_index_def)

lemma py_index_Inl: "i < - int n \<or> int n \<le> i \<Longrightarrow> py_index n i = Inl IndexError"
  by (auto simp add: py_index_def)

lemma py_index_nat: "k < n \<Longrightarrow> py_index n (int k) = Inr k"
  by (simp add: py_index_def)

lemma py_index_nat_Inl: "n \<le> k \<Longrightarrow> py_index n (int k) = Inl IndexError"
  by (simp add: py_index_def)

lemma seam_col_less: "- int w \<le> seam ! i \<Longrightarrow> seam ! i < int w \<Longrightarrow> seam_col w seam i < w"
  by (auto simp add: seam_col_def)

lemma shape_set_cell [simp]:
  "nrows (set_cell a i j v) = nrows a" "ncols (set_cell a i j v) = ncols a"
  by (simp_all add: set_cell_def)

lemma set_cell_mk_arr:
  assumes "i < m" "j < n"
  shows "set_cell (mk_arr m n f) i j v = mk_arr m n (\<lambda>i' j'. if i' = i \<and> j' = j then v else f i' j')"
proof -
  have "(map (\<lambda>i. map (f i) [0..<n]) [0..<m])[i := (map (f i) [0..<n])[j := v]]
        = map (\<lambda>i'. map (\<lambda>j'. if i' = i \<and> j' = j then v else f i' j') [0..<n]) [0..<m]"
  proof (rule nth_equalityI)
    show "length ((map (\<lambda>i. map (f i) [0..<n]) [0..<m])[i := (map (f i) [0..<n])[j := v]]) =
          length (map (\<lambda>i'. map (\<lambda>j'. if i' = i \<and> j' = j then v else f i' j') [0..<n]) [0..<m])"
      by simp
  next
    fix k assume "k < length ((map (\<lambda>i. map (f i) [0..<n]) [0..<m])[i := (map (f i) [0..<n])[j := v]])"
    then have k: "k < m" by simp
    show "(map (\<lambda>i. map (f i) [0..<n]) [0..<m])[i := (map (f i) [0..<n])[j := v]] ! k =
          map (\<lambda>i'. map (\<lambda>j'. if i' = i \<and> j' = j then v else f i' j') [0..<n]) [0..<m] ! k"
    proof (cases "k = i")
      case True
      have "(map (f i) [0..<n])[j := v] = map (\<lambda>j'. if j' = j then v else f i j') [0..<n]"
        by (rule nth_equalityI) (simp_all add: nth_list_update)
      with True k show ?thesis by simp
    next
      case False
      with k show ?thesis by simp
    qed
  qed
  with assms show ?thesis
    by (simp add: set_cell_def mk_arr_def)
qed

lemma mask_loop_ok:
  assumes "k \<le> h"
    and "\<forall>i. k \<le> i \<and> i < h \<longrightarrow> i < length seam \<and> - int w \<le> seam ! i \<and> seam ! i < int w"
  shows "mask_loop seam [k..<h] (mk_arr h w (\<lambda>i j. i < k \<longrightarrow> j \<noteq> seam_col w seam i))
         = Inr (seam_mask h w (seam_col w seam))"
  using assms
proof (induction "h - k" arbitrary: k)
  case 0
  then have "k = h" by simp
  have "mk_arr h w (\<lambda>i j. i < h \<longrightarrow> j \<noteq> seam_col w seam i) = mk_arr h w (\<lambda>i j. j \<noteq> seam_col w seam i)"
    by (rule mk_arr_cong) simp
  with \<open>k = h\<close> show ?case by (simp add: seam_mask_def)
next
  case (Suc d)
  then have kh: "k < h" by simp
  with Suc.prems have ok: "k < length seam" "- int w \<le> seam ! k" "seam ! k < int w" by auto
  have c: "seam_col w seam k < w" using ok by (simp add: seam_col_less)
  have upd: "set_cell (mk_arr h w (\<lambda>i j. i < k \<longrightarrow> j \<noteq> seam_col w seam i)) k (seam_col w seam k) False
     = mk_arr h w (\<lambda>i j. i < Suc k \<longrightarrow> j \<noteq> seam_col w seam i)"
    unfolding set_cell_mk_arr [OF kh c]
    by (rule mk_arr_cong) (auto simp add: less_Suc_eq)
  have ih: "mask_loop seam [Suc k..<h] (mk_arr h w (\<lambda>i j. i < Suc k \<longrightarrow> j \<noteq> seam_col w seam i))
         = Inr (seam_mask h w (seam_col w seam))"
    using Suc.hyps(2) Suc.prems kh by (intro Suc.hyps(1)) auto
  show ?case
    using kh ok ih upd
    by (simp add: upt_conv_Cons py_index_nat py_index_Inr seam_col_def)
qed

lemma mask_loop_fail:
  assumes "ncols m = w"
    and "\<exists>i. k \<le> i \<and> i < h \<and> (length seam \<le> i \<or> seam ! i < - int w \<or> int w \<le> seam ! i)"
  shows "mask_loop seam [k..<h] m = Inl IndexError"
  using assms
proof (induction "h - k" arbitrary: k m)
  case 0
  then show ?case by auto
next
  case (Suc d)
  then have kh: "k < h" by auto
  show ?case
  proof (cases "length seam \<le> k")
    case True
    with kh show ?thesis by (simp add: upt_conv_Cons py_index_nat_Inl)
  next
    case False
    then have kl: "k < length seam" by simp
    show ?thesis
    proof (cases "seam ! k < - int w \<or> int w \<le> seam ! k")
      case True
      with kh kl Suc.prems(1) show ?thesis
        by (simp add: upt_conv_Cons py_index_nat py_index_Inl)
    next
      case False
      then have r: "- int w \<le> seam ! k" "seam ! k < int w" by auto
      from Suc.prems(2) obtain i where i: "k \<le> i" "i < h"
        "length seam \<le> i \<or> seam ! i < - int w \<or> int w \<le> seam ! i" by blast
      with kl False have "i \<noteq> k" by auto
      with i have ex: "\<exists>i. Suc k \<le> i \<and> i < h \<and> (length seam \<le> i \<or> seam ! i < - int w \<or> int w \<le> seam ! i)"
        by (intro exI [of _ i]) auto
      have "mask_loop seam [Suc k..<h] (set_cell m k (seam_col w seam k) False) = Inl IndexError"
        using Suc.hyps(2) Suc.prems(1) ex by (intro Suc.hyps(1)) auto
      with kh kl r Suc.prems(1) show ?thesis
        by (simp add: upt_conv_Cons py_index_nat py_index_Inr seam_col_def)
    qed
  qed
qed

lemma zip_concat:
  "list_all2 (\<lambda>x y. length x = length y) xss yss \<Longrightarrow>
   zip (concat xss) (concat yss) = concat (map (\<lambda>p. zip (fst p) (snd p)) (zip xss yss))"
  by (induction rule: list_all2_induct) simp_all

lemma concat_nth_uniform:
  "\<forall>r\<in>set xss. length r = n \<Longrightarrow> i < length xss \<Longrightarrow> j < n \<Longrightarrow>
   concat xss ! (i * n + j) = xss ! i ! j"
proof (induction xss arbitrary: i)
  case Nil
  then show ?case by simp
next
  case (Cons x xs)
  show ?case
  proof (cases i)
    case 0
    with Cons.prems show ?thesis by (simp add: nth_append)
  next
    case (Suc i')
    with Cons.prems have "concat xs ! (i' * n + j) = xs ! i' ! j"
      by (intro Cons.IH) auto
    with Suc Cons.prems show ?thesis by (simp add: nth_append)
  qed
qed

lemma length_concat_uniform:
  "\<forall>r\<in>set xss. length r = n \<Longrightarrow> length (concat xss) = length xss * n"
  by (induction xss) simp_all

lemma upt_split: "c \<le> w \<Longrightarrow> [0..<w] = [0..<c] @ [c..<w]"
  using upt_add_eq_append [of 0 c "w - c"] by simp

lemma filter_neq_upt:
  assumes "c < w"
  shows "filter (\<lambda>j. j \<noteq> c) [0..<w] = map (\<lambda>j. if j < c then j else j + 1) [0..<w - 1]"
proof -
  have l: "[0..<w] = [0..<c] @ c # [Suc c..<w]"
    using assms upt_split [of c w] by (simp add: upt_conv_Cons)
  have "filter (\<lambda>j. j \<noteq> c) [0..<w] = [0..<c] @ [Suc c..<w]"
    unfolding l by (auto simp add: filter_id_conv)
  moreover have s: "[0..<w - 1] = [0..<c] @ [c..<w - 1]"
    using assms by (intro upt_split) simp
  have m1: "map (\<lambda>j. if j < c then j else j + 1) [0..<c] = [0..<c]"
    by (rule map_idI) simp
  have m2: "map (\<lambda>j. if j < c then j else j + 1) [c..<w - 1] = map Suc [c..<w - 1]"
    by (rule map_cong) auto
  have "map (\<lambda>j. if j < c then j else j + 1) [0..<w - 1] = [0..<c] @ map Suc [c..<w - 1]"
    by (subst s) (simp only: map_append m1 m2)
  moreover have "map Suc [c..<w - 1] = [Suc c..<w]"
    using assms by (simp add: map_Suc_upt)
  ultimately show ?thesis by simp
qed

lemma select_row:
  assumes "length r = w" "c < w"
  shows "map fst (filter snd (zip r (map (\<lambda>j. j \<noteq> c) [0..<w])))
         = map (\<lambda>j. r ! (if j < c then j else j + 1)) [0..<w - 1]"
proof -
  have r: "r = map ((!) r) [0..<w]"
    unfolding assms(1) [symmetric] by (simp add: map_nth)
  have "zip r (map (\<lambda>j. j \<noteq> c) [0..<w]) = map (\<lambda>j. (r ! j, j \<noteq> c)) [0..<w]"
    by (subst r) (simp add: zip_map_map zip_same_conv_map)
  then have "map fst (filter snd (zip r (map (\<lambda>j. j \<noteq> c) [0..<w])))
             = map ((!) r) (filter (\<lambda>j. j \<noteq> c) [0..<w])"
    by (simp add: filter_map comp_def)
  also have "\<dots> = map (\<lambda>j. r ! (if j < c then j else j + 1)) [0..<w - 1]"
    by (simp add: filter_neq_upt [OF assms(2)] comp_def)
  finally show ?thesis .
qed

lemma bool_select_seam_mask:
  assumes "wf_arr a" "nrows a = h" "ncols a = w" "\<forall>i<h. c i < w"
  shows "bool_select a (seam_mask h w c)
         = Inr (concat (map (\<lambda>i. map (\<lambda>j. cell a i (if j < c i then j else j + 1)) [0..<w - 1])
                  [0..<h]))"
proof -
  have "length (rows a) = h"
    using assms(1,2) by (simp add: wf_arr_def)
  then have ra: "rows a = map ((!) (rows a)) [0..<h]"
    by (metis map_nth)
  have rm: "rows (seam_mask h w c) = map (\<lambda>i. map (\<lambda>j. j \<noteq> c i) [0..<w]) [0..<h]"
    by (simp add: seam_mask_def rows_mk_arr)
  have len: "list_all2 (\<lambda>x y. length x = length y) (rows a) (rows (seam_mask h w c))"
    unfolding rm using assms(1,2,3)
    by (simp add: list_all2_conv_all_nth wf_arr_def list_all_length)
  have z: "zip (rows a) (rows (seam_mask h w c))
           = map (\<lambda>i. (rows a ! i, map (\<lambda>j. j \<noteq> c i) [0..<w])) [0..<h]"
    unfolding rm by (subst ra) (simp add: zip_map_map zip_same_conv_map)
  have "map fst (filter snd (zip (concat (rows a)) (concat (rows (seam_mask h w c)))))
        = concat (map (\<lambda>i. map fst (filter snd (zip (rows a ! i) (map (\<lambda>j. j \<noteq> c i) [0..<w]))))
                    [0..<h])"
    by (simp add: zip_concat [OF len] z map_concat filter_concat comp_def)
  also have "\<dots> = concat (map (\<lambda>i. map (\<lambda>j. cell a i (if j < c i then j else j + 1)) [0..<w - 1])
                  [0..<h])"
  proof -
    have "map fst (filter snd (zip (rows a ! i) (map (\<lambda>j. j \<noteq> c i) [0..<w])))
          = map (\<lambda>j. cell a i (if j < c i then j else j + 1)) [0..<w - 1]" if "i < h" for i
      using that assms select_row [of "rows a ! i" w "c i"]
      by (simp add: wf_arr_row_length cell_def)
    then show ?thesis
      by (intro arg_cong [where f = concat] map_cong) simp_all
  qed
  finally show ?thesis
    using assms(2,3) by (simp add: bool_select_def seam_mask_def)
qed

lemma masked_reshape_seam_mask:
  assumes "wf_arr a" "nrows a = h" "ncols a = w" "\<forall>i<h. c i < w" "0 < h"
  shows "masked_reshape h a (seam_mask h w c) = Inr (delete_cols a c)"
proof -
  let ?row = "\<lambda>i. map (\<lambda>j. cell a i (if j < c i then j else j + 1)) [0..<w - 1]"
  let ?xs = "concat (map ?row [0..<h])"
  have u: "\<forall>r\<in>set (map ?row [0..<h]). length r = w - 1" by auto
  have len: "length ?xs = h * (w - 1)"
    using length_concat_uniform [OF u] by simp
  have nth: "?xs ! (i * (w - 1) + j) = cell a i (if j < c i then j else j + 1)"
    if "i < h" "j < w - 1" for i j
    using concat_nth_uniform [OF u, of i j] that by simp
  have "reshape_rows h ?xs = Inr (mk_arr h (w - 1) (\<lambda>i j. ?xs ! (i * (w - 1) + j)))"
    using assms(5) len by (simp add: reshape_rows_def)
  also have "mk_arr h (w - 1) (\<lambda>i j. ?xs ! (i * (w - 1) + j)) = delete_cols a c"
    unfolding delete_cols_def assms(2,3) by (rule mk_arr_cong) (rule nth)
  finally show ?thesis
    by (simp add: masked_reshape_def err_bind_def bool_select_seam_mask [OF assms(1-4)])
qed

lemma seam_ok_iff:
  "seam_ok h w seam \<longleftrightarrow>
   (\<forall>i<h. i < length seam \<and> - int w \<le> seam ! i \<and> seam ! i < int w)"
  by (auto simp add: seam_ok_def list_all_iff not_less intro: leI)

lemma mask_loop_seam_ok:
  "seam_ok h w seam \<Longrightarrow>
   mask_loop seam [0..<h] (mk_arr h w (\<lambda>i j. True)) = Inr (seam_mask h w (seam_col w seam))"
  using mask_loop_ok [of 0 h seam w] by (simp add: seam_ok_iff)

lemma mask_loop_not_seam_ok:
  "\<not> seam_ok h w seam \<Longrightarrow>
   mask_loop seam [0..<h] (mk_arr h w (\<lambda>i j. True)) = Inl IndexError"
  by (rule mask_loop_fail [of _ w]) (auto simp add: seam_ok_iff not_less)

lemma seam_ok_cols: "seam_ok h w seam \<Longrightarrow> \<forall>i<h. seam_col w seam i < w"
  by (simp add: seam_ok_iff seam_col_less)

lemma remove_seam_fail:
  "\<not> seam_ok (nrows (resized_rgb st)) (ncols (resized_rgb st)) seam \<Longrightarrow>
   remove_seam st seam = (Some IndexError, st)"
  by (simp add: remove_seam_def Let_def mask_loop_not_seam_ok)

lemma remove_seam_no_rows:
  "nrows (resized_rgb st) = 0 \<Longrightarrow> remove_seam st seam = (Some ValueError, st)"
  by (simp add: remove_seam_def Let_def masked_reshape_def bool_select_def reshape_rows_def
      err_bind_def)

lemma remove_seam_ok:
  assumes "wf_arr (resized_rgb st)" "wf_arr (resized_gs st)"
    and "nrows (resized_gs st) = nrows (resized_rgb st)"
    and "ncols (resized_gs st) = ncols (resized_rgb st)"
    and "vis_seams st \<longrightarrow> wf_arr (idx_map st) \<and> nrows (idx_map st) = nrows (resized_rgb st)
           \<and> ncols (idx_map st) = ncols (resized_rgb st)"
    and "0 < nrows (resized_rgb st)"
    and "seam_ok (nrows (resized_rgb st)) (ncols (resized_rgb st)) seam"
  shows "remove_seam st seam =
     (None,
      st\<lparr>resized_rgb := delete_cols (resized_rgb st) (seam_col (ncols (resized_rgb st)) seam),
         resized_gs := delete_cols (resized_gs st) (seam_col (ncols (resized_rgb st)) seam),
         idx_map := (if vis_seams st
                     then delete_cols (idx_map st) (seam_col (ncols (resized_rgb st)) seam)
                     else idx_map st),
         self_w := self_w st - 1\<rparr>)"
proof -
  let ?h = "nrows (resized_rgb st)" and ?w = "ncols (resized_rgb st)"
  let ?c = "seam_col ?w seam"
  note c = seam_ok_cols [OF assms(7)]
  have 1: "masked_reshape ?h (resized_rgb st) (seam_mask ?h ?w ?c) = Inr (delete_cols (resized_rgb st) ?c)"
    using assms(1,6) c by (intro masked_reshape_seam_mask) simp_all
  have 2: "masked_reshape ?h (resized_gs st) (seam_mask ?h ?w ?c) = Inr (delete_cols (resized_gs st) ?c)"
    using assms(2,3,4,6) c by (intro masked_reshape_seam_mask) simp_all
  have 3: "masked_reshape ?h (idx_map st) (seam_mask ?h ?w ?c) = Inr (delete_cols (idx_map st) ?c)"
    if "vis_seams st"
    using assms(5,6) c that by (intro masked_reshape_seam_mask) simp_all
  show ?thesis
    using 3 by (simp add: remove_seam_def Let_def mask_loop_seam_ok [OF assms(7)] 1 2)
qed

lemma gs_img_2x3: "rgb_to_grayscale img_2x3 = Arr 2 3 [[0, 1, 0], [1, 1, 0]]"
  by (simp add: rgb_to_grayscale_def img_2x3_def arr_map_def mk_arr_def cell_def upt_conv_Cons)

lemma carver_2x3_shape:
  "wf_arr (resized_rgb carver_2x3)" "wf_arr (resized_gs carver_2x3)"
  "nrows (resized_rgb carver_2x3) = 2" "ncols (resized_rgb carver_2x3) = 3"
  "nrows (resized_gs carver_2x3) = 2" "ncols (resized_gs carver_2x3) = 3"
  "wf_arr (idx_map carver_2x3)" "nrows (idx_map carver_2x3) = 2" "ncols (idx_map carver_2x3) = 3"
  by (simp_all add: carver_2x3_fields wf_img_2x3 rgb_to_grayscale_def)

lemma all_less_2: "(\<forall>i<2::nat. P i) \<longleftrightarrow> P 0 \<and> P 1"
  by (auto simp add: less_Suc_eq numeral_2_eq_2)

lemma ex_less_2: "(\<exists>i<2::nat. P i) \<longleftrightarrow> P 0 \<or> P 1"
  by (auto simp add: less_Suc_eq numeral_2_eq_2)

lemma delete_cols_gs_2x3:
  "delete_cols (Arr 2 3 [[0, 1, 0], [1, 1, 0 :: real]]) (seam_col 3 [1, 0])
   = Arr 2 2 [[0, 0], [1, 0]]"
  "delete_cols (Arr 2 3 [[0, 1, 0], [1, 1, 0 :: real]]) (seam_col 3 [- 1, 0, 5])
   = Arr 2 2 [[0, 1], [1, 0]]"
  by (simp_all add: delete_cols_def seam_col_def mk_arr_def cell_def upt_conv_Cons)

subsection \<open>The invariant of a carving session\<close>

lemma carver_inv_cong:
  assumes "resized_rgb st' = resized_rgb st" "resized_gs st' = resized_gs st"
    "idx_map st' = idx_map st" "self_h st' = self_h st" "self_w st' = self_w st"
    "vis_seams st' = vis_seams st" "rgb st' = rgb st"
  shows "carver_inv h0 w0 st' = carver_inv h0 w0 st"
  by (simp add: carver_inv_def assms)

lemma shape_delete_cols [simp]:
  "nrows (delete_cols a c) = nrows a" "ncols (delete_cols a c) = ncols a - 1"
  "wf_arr (delete_cols a c)"
  by (simp_all add: delete_cols_def)

lemma cell_delete_cols:
  "i < nrows a \<Longrightarrow> j < ncols a - 1 \<Longrightarrow>
   cell (delete_cols a c) i j = cell a i (if j < c i then j else j + 1)"
  by (simp add: delete_cols_def)

lemma init_mats_fields [simp]:
  "resized_rgb (init_mats st) = resized_rgb st" "resized_gs (init_mats st) = resized_gs st"
  "idx_map (init_mats st) = idx_map st" "self_h (init_mats st) = self_h st"
  "self_w (init_mats st) = self_w st" "vis_seams (init_mats st) = vis_seams st"
  "rgb (init_mats st) = rgb st" "seam_history (init_mats st) = seam_history st"
  "self_E (init_mats st) = self_E st"
  by (simp_all add: init_mats_def Let_def)

lemma inv_init:
  assumes "wf_arr img" "SeamImage_init strat img True prev = Inr st"
  shows "carver_inv (nrows img) (ncols img) st"
proof -
  let ?st1 = "prev\<lparr>rgb := img, resized_rgb := img, vis_seams := True,
                      seams_rgb := img,
                      self_h := int (nrows img), self_w := int (ncols img),
                      resized_gs := rgb_to_grayscale img,
                      cumm_mask := mk_arr (nrows img) (ncols img) (\<lambda>i j. True),
                      self_E := calc_gradient_magnitude (rgb_to_grayscale img),
                      seam_history := [],
                      idx_map := mk_arr (nrows img) (ncols img) (\<lambda>i j. (j, i))\<rparr>"
  have 1: "carver_inv (nrows img) (ncols img) ?st1"
    using assms(1) by (simp add: carver_inv_def rgb_to_grayscale_def)
  have "st = ?st1 \<or> st = init_mats ?st1"
    using assms(2) by (cases strat) (auto simp add: SeamImage_init_def Let_def split: if_splits)
  then show ?thesis
    using 1 by (auto simp add: carver_inv_cong [of "init_mats ?st1" ?st1])
qed

lemma inv_remove:
  assumes "carver_inv h0 w0 st" "remove_seam st seam = (None, st')"
  shows "carver_inv h0 w0 st'"
proof -
  let ?h = "nrows (resized_rgb st)" and ?w = "ncols (resized_rgb st)"
  let ?c = "seam_col ?w seam"
  have ok: "seam_ok ?h ?w seam"
    using assms(2) remove_seam_fail [of st seam] by auto
  have h: "0 < ?h"
    using assms(2) remove_seam_no_rows [of st seam] by auto
  note c = seam_ok_cols [OF ok]
  from c h have w: "0 < ?w" by fastforce
  have "remove_seam st seam =
     (None,
      st\<lparr>resized_rgb := delete_cols (resized_rgb st) ?c,
         resized_gs := delete_cols (resized_gs st) ?c,
         idx_map := (if vis_seams st then delete_cols (idx_map st) ?c else idx_map st),
         self_w := self_w st - 1\<rparr>)"
    using assms(1) h ok by (intro remove_seam_ok) (simp_all add: carver_inv_def)
  with assms(2) have st': "st' = st\<lparr>resized_rgb := delete_cols (resized_rgb st) ?c,
         resized_gs := delete_cols (resized_gs st) ?c,
         idx_map := delete_cols (idx_map st) ?c,
         self_w := self_w st - 1\<rparr>"
    using assms(1) by (simp add: carver_inv_def)
  have f: "(if j < ?c i then j else j + 1) < ?w" if "j < ?w - 1" for i j
    using that by auto
  have bounds: "fst (cell (delete_cols (idx_map st) ?c) i j) < w0
                \<and> snd (cell (delete_cols (idx_map st) ?c) i j) < h0"
    if "i < ?h" "j < ?w - 1" for i j
    using assms(1) that f [OF that(2), of i]
    by (simp add: carver_inv_def cell_delete_cols del: One_nat_def)
  have inj: "i = i' \<and> j = j'"
    if "i < ?h" "j < ?w - 1" "i' < ?h" "j' < ?w - 1"
      "cell (delete_cols (idx_map st) ?c) i j = cell (delete_cols (idx_map st) ?c) i' j'"
    for i j i' j'
  proof -
    have "cell (idx_map st) i (if j < ?c i then j else j + 1)
          = cell (idx_map st) i' (if j' < ?c i' then j' else j' + 1)"
      using that assms(1) by (simp add: carver_inv_def cell_delete_cols del: One_nat_def)
    then have "i = i' \<and> (if j < ?c i then j else j + 1) = (if j' < ?c i' then j' else j' + 1)"
      using assms(1) that(1,3) f [OF that(2), of i] f [OF that(4), of i']
      by (simp add: carver_inv_def del: One_nat_def)
    then show ?thesis by (auto split: if_splits)
  qed
  show ?thesis
    unfolding st' using assms(1) w bounds inj
    by (simp add: carver_inv_def of_nat_diff del: One_nat_def)
qed

lemma cell_rot90:
  "i < ncols a \<Longrightarrow> j < nrows a \<Longrightarrow>
   cell (rot90 axes a) i j =
     (if snd axes = 0 then cell a (nrows a - 1 - j) i else cell a j (ncols a - 1 - i))"
  by (simp add: rot90_def transpose_arr_def flip_axis_def)

lemma inv_rotate:
  assumes "carver_inv h0 w0 st"
  shows "carver_inv h0 w0 (rotate_mats clockwise st)"
proof -
  let ?m = "idx_map st"
  let ?H = "nrows ?m" and ?W = "ncols ?m"
  let ?mat = "if clockwise then (1, 0) else (0, 1::nat)"
  let ?m' = "rot90 ?mat ?m"
  have b: "fst (cell ?m i j) < w0 \<and> snd (cell ?m i j) < h0" if "i < ?H" "j < ?W" for i j
    using assms that by (simp add: carver_inv_def)
  have inj: "i = i' \<and> j = j'"
    if "i < ?H" "j < ?W" "i' < ?H" "j' < ?W" "cell ?m i j = cell ?m i' j'" for i j i' j'
    using assms that unfolding carver_inv_def by blast
  have bounds: "fst (cell ?m' i j) < w0 \<and> snd (cell ?m' i j) < h0" if "i < ?W" "j < ?H" for i j
  proof (cases clockwise)
    case True
    have "?H - 1 - j < ?H" using that by simp
    with True that b [of "?H - 1 - j" i] show ?thesis by (simp add: cell_rot90 del: One_nat_def)
  next
    case False
    have "?W - 1 - i < ?W" using that by simp
    with False that b [of j "?W - 1 - i"] show ?thesis by (simp add: cell_rot90 del: One_nat_def)
  qed
  have inj': "i = i' \<and> j = j'"
    if "i < ?W" "j < ?H" "i' < ?W" "j' < ?H" "cell ?m' i j = cell ?m' i' j'" for i j i' j'
  proof (cases clockwise)
    case True
    have r: "?H - 1 - j < ?H" "?H - 1 - j' < ?H" using that by simp_all
    have "cell ?m (?H - 1 - j) i = cell ?m (?H - 1 - j') i'"
      using that True by (simp add: cell_rot90 del: One_nat_def)
    from inj [OF r(1) that(1) r(2) that(3) this] that(2,4) show ?thesis by auto
  next
    case False
    have r: "?W - 1 - i < ?W" "?W - 1 - i' < ?W" using that by simp_all
    have "cell ?m j (?W - 1 - i) = cell ?m j' (?W - 1 - i')"
      using that False by (simp add: cell_rot90 del: One_nat_def)
    from inj [OF that(2) r(1) that(4) r(2) this] that(1,3) show ?thesis by auto
  qed
  have st': "rotate_mats clockwise st =
     st\<lparr>resized_gs := rot90 ?mat (resized_gs st), resized_rgb := rot90 ?mat (resized_rgb st),
        self_h := self_w st, self_w := self_h st, idx_map := ?m'\<rparr>"
    using assms by (simp add: rotate_mats_def Let_def carver_inv_def)
  show ?thesis
    unfolding st' using assms bounds inj'
    by (simp add: carver_inv_def del: One_nat_def)
qed

lemma find_minimal_seam_fields:
  assumes "find_minimal_seam strat st = Inr found"
  shows "resized_rgb (snd found) = resized_rgb st" "resized_gs (snd found) = resized_gs st"
    "idx_map (snd found) = idx_map st" "self_h (snd found) = self_h st"
    "self_w (snd found) = self_w st" "vis_seams (snd found) = vis_seams st"
    "rgb (snd found) = rgb st" "seam_history (snd found) = seam_history st"
  using assms
  by (cases strat; auto simp add: find_minimal_seam_def Let_def err_bind_def split: sum.splits)+

lemma inv_find:
  "find_minimal_seam strat st = Inr found \<Longrightarrow> carver_inv h0 w0 (snd found) = carver_inv h0 w0 st"
  by (rule carver_inv_cong) (simp_all add: find_minimal_seam_fields)

lemma inv_loop:
  "seams_removal_loop strat n st = Inr st' \<Longrightarrow> carver_inv h0 w0 st \<Longrightarrow> carver_inv h0 w0 st'"
proof (induction n arbitrary: st)
  case 0
  then show ?case by simp
next
  case (Suc n)
  let ?st0 = "st\<lparr>self_E := calc_gradient_magnitude (resized_gs st)\<rparr>"
  from Suc.prems(1) obtain found where f: "find_minimal_seam strat ?st0 = Inr found"
    by (auto split: sum.splits)
  let ?st1 = "(snd found)\<lparr>seam_history := seam_history (snd found) @ [fst found]\<rparr>"
  from Suc.prems(1) f obtain st2 where
    r: "remove_seam ?st1 (fst found) = (None, st2)" and l: "seams_removal_loop strat n st2 = Inr st'"
    by (auto split: prod.splits option.splits)
  have "carver_inv h0 w0 ?st0"
    using Suc.prems(2) by (simp add: carver_inv_def)
  then have "carver_inv h0 w0 (snd found)"
    by (simp add: inv_find [OF f])
  then have "carver_inv h0 w0 ?st1"
    by (simp add: carver_inv_def)
  then have "carver_inv h0 w0 st2"
    using r by (rule inv_remove)
  with l show ?case by (rule Suc.IH)
qed

lemma inv_paint:
  "paint_seams st = Inr st' \<Longrightarrow> carver_inv h0 w0 st' = carver_inv h0 w0 st"
  by (rule carver_inv_cong) (auto simp add: paint_seams_def Let_def split: if_splits)

lemma inv_seams_removal:
  assumes "seams_removal strat n st = Inr st'" "carver_inv h0 w0 st"
  shows "carver_inv h0 w0 st'"
proof -
  from assms(1) obtain st1 where l: "seams_removal_loop strat (nat n) st = Inr st1"
    and p: "(if vis_seams st1 then paint_seams st1 else Inr st1) = Inr st'"
    by (auto simp add: seams_removal_def err_bind_def split: sum.splits)
  have 1: "carver_inv h0 w0 st1" using l assms(2) by (rule inv_loop)
  then have "vis_seams st1" by (simp add: carver_inv_def)
  with p have "paint_seams st1 = Inr st'" by simp
  with 1 show ?thesis by (simp add: inv_paint)
qed

lemma inv_horizontal:
  assumes "seams_removal_horizontal strat n st = Inr st'" "carver_inv h0 w0 st"
  shows "carver_inv h0 w0 st'"
proof -
  from assms(1) obtain st1 where l: "seams_removal strat n (rotate_mats True st) = Inr st1"
    and p: "st' = rotate_mats False st1"
    by (auto simp add: seams_removal_horizontal_def err_bind_def split: sum.splits)
  have "carver_inv h0 w0 st1"
    using l inv_rotate [OF assms(2)] by (rule inv_seams_removal)
  then show ?thesis unfolding p by (rule inv_rotate)
qed

lemma reachable_inv: "reachable strat img st \<Longrightarrow> carver_inv (nrows img) (ncols img) st"
proof (induction rule: reachable.induct)
  case (start prev st)
  then show ?case by (rule inv_init)
next
  case (remove st seam st')
  then show ?case by (simp add: inv_remove)
next
  case (rotate st clockwise)
  then show ?case by (simp add: inv_rotate)
next
  case (removal st n st')
  then show ?case by (simp add: inv_seams_removal)
next
  case (horizontal st n st')
  then show ?case by (simp add: inv_horizontal)
qed

lemma length_concat_rows: "wf_arr a \<Longrightarrow> length (concat (rows a)) = nrows a * ncols a"
  using length_concat_uniform [of "rows a" "ncols a"] by (simp add: wf_arr_def list_all_iff)

lemma concat_rows_nth:
  assumes "wf_arr a" "k < nrows a * ncols a"
  shows "concat (rows a) ! k = cell a (k div ncols a) (k mod ncols a)"
    and "k div ncols a < nrows a" and "k mod ncols a < ncols a"
proof -
  have w: "0 < ncols a" using assms(2) by (cases "ncols a") simp_all
  show d: "k div ncols a < nrows a"
    using assms(2) by (simp add: less_mult_imp_div_less)
  show m: "k mod ncols a < ncols a" using w by simp
  have "concat (rows a) ! (k div ncols a * ncols a + k mod ncols a)
        = rows a ! (k div ncols a) ! (k mod ncols a)"
    using assms(1) d m by (intro concat_nth_uniform) (simp_all add: wf_arr_def list_all_iff)
  then show "concat (rows a) ! k = cell a (k div ncols a) (k mod ncols a)"
    by (simp add: cell_def)
qed

lemma distinct_concat_rows:
  assumes "wf_arr a"
    and "\<forall>i<nrows a. \<forall>j<ncols a. \<forall>i'<nrows a. \<forall>j'<ncols a.
           cell a i j = cell a i' j' \<longrightarrow> i = i' \<and> j = j'"
  shows "distinct (concat (rows a))"
proof -
  have "k = k'" if "k < nrows a * ncols a" "k' < nrows a * ncols a"
    "concat (rows a) ! k = concat (rows a) ! k'" for k k'
  proof -
    have "cell a (k div ncols a) (k mod ncols a) = cell a (k' div ncols a) (k' mod ncols a)"
      using that concat_rows_nth(1) [OF assms(1)] by simp
    then have "k div ncols a = k' div ncols a \<and> k mod ncols a = k' mod ncols a"
      using assms(2) concat_rows_nth(2,3) [OF assms(1) that(1)]
        concat_rows_nth(2,3) [OF assms(1) that(2)] by blast
    then show ?thesis by (metis div_mult_mod_eq)
  qed
  then show ?thesis
    using length_concat_rows [OF assms(1)] by (auto simp add: distinct_conv_nth)
qed

lemma set_concat_rows:
  assumes "wf_arr a" "p \<in> set (concat (rows a))"
  shows "\<exists>i<nrows a. \<exists>j<ncols a. p = cell a i j"
proof -
  from assms(2) obtain r where "r \<in> set (rows a)" "p \<in> set r" by auto
  then obtain i j where ij: "i < length (rows a)" "r = rows a ! i" "j < length r" "p = r ! j"
    by (auto simp add: in_set_conv_nth)
  then have "i < nrows a" "j < ncols a"
    using assms(1) by (auto simp add: wf_arr_def list_all_length)
  with ij show ?thesis by (auto simp add: cell_def)
qed

lemma remove_seam_carver_2x3:
  "remove_seam carver_2x3 [1, 0] =
     (None, carver_2x3\<lparr>resized_rgb := delete_cols (resized_rgb carver_2x3) (seam_col 3 [1, 0]),
        resized_gs := delete_cols (resized_gs carver_2x3) (seam_col 3 [1, 0]),
        idx_map := delete_cols (idx_map carver_2x3) (seam_col 3 [1, 0]),
        self_w := self_w carver_2x3 - 1\<rparr>)"
proof -
  have ok: "seam_ok (nrows (resized_rgb carver_2x3)) (ncols (resized_rgb carver_2x3)) [1, 0]"
    by (simp add: seam_ok_def carver_2x3_shape upt_conv_Cons)
  show ?thesis
    using remove_seam_ok [of carver_2x3 "[1, 0]", OF _ _ _ _ _ _ ok]
    by (simp add: carver_2x3_shape carver_2x3_fields(4))
qed

lemma delete_cols_idx_2x3:
  "delete_cols (mk_arr 2 3 (\<lambda>i j. (j, i))) (seam_col 3 [1, 0])
   = Arr 2 2 [[(0, 0), (2, 0)], [(1, 1), (2, 1)]]"
  by (simp add: delete_cols_def seam_col_def mk_arr_def cell_def upt_conv_Cons)

lemma carver_2x3_plain_init: "SeamImage_init Greedy img_2x3 False blank = Inr carver_2x3_plain"
  by (simp add: carver_2x3_plain_def SeamImage_init_def img_2x3_def Let_def)

lemma carver_2x3_plain_fields:
  "resized_rgb carver_2x3_plain = img_2x3"
  "resized_gs carver_2x3_plain = rgb_to_grayscale img_2x3"
  "idx_map carver_2x3_plain = mk_arr 2 3 (\<lambda>i j. (j, i))"
  "\<not> vis_seams carver_2x3_plain"
  "self_h carver_2x3_plain = 2"
  "self_w carver_2x3_plain = 3"
  by (simp_all add: carver_2x3_plain_def SeamImage_init_def img_2x3_def Let_def)

lemma remove_seam_carver_2x3_plain:
  "remove_seam carver_2x3_plain [1, 0] =
     (None, carver_2x3_plain\<lparr>resized_rgb := delete_cols img_2x3 (seam_col 3 [1, 0]),
        resized_gs := delete_cols (rgb_to_grayscale img_2x3) (seam_col 3 [1, 0]),
        self_w := 2\<rparr>)"
proof -
  have ok: "seam_ok (nrows (resized_rgb carver_2x3_plain)) (ncols (resized_rgb carver_2x3_plain))
              [1, 0]"
    by (simp add: seam_ok_def carver_2x3_plain_fields wf_img_2x3 upt_conv_Cons)
  show ?thesis
    using remove_seam_ok [of carver_2x3_plain "[1, 0]", OF _ _ _ _ _ _ ok]
    by (simp add: carver_2x3_plain_fields wf_img_2x3 rgb_to_grayscale_def)
qed

subsection \<open>Passes that remove nothing\<close>

lemma same_core_inv: "same_core st st' \<Longrightarrow> carver_inv h0 w0 st' = carver_inv h0 w0 st"
  by (rule carver_inv_cong) (simp_all add: same_core_def)

lemma slice_end_full: "slice_end n (int n) = n"
  by (simp add: slice_end_def)

lemma paint_seams_ok:
  assumes "carver_inv h0 w0 st"
  shows "\<exists>st'. paint_seams st = Inr st' \<and> same_core st st'"
proof -
  have wf: "wf_arr (idx_map st)" using assms by (simp add: carver_inv_def)
  have h: "slice_end (nrows (idx_map st)) (self_h st) = nrows (idx_map st)"
    and w: "slice_end (ncols (idx_map st)) (self_w st) = ncols (idx_map st)"
    using assms slice_end_full [of "nrows (idx_map st)"] slice_end_full [of "ncols (idx_map st)"]
    by (simp_all add: carver_inv_def)
  have sub: "mk_arr (slice_end (nrows (idx_map st)) (self_h st))
               (slice_end (ncols (idx_map st)) (self_w st)) (cell (idx_map st)) = idx_map st"
    unfolding h w using wf by (rule mk_arr_cell)
  have "snd p < nrows (rgb st) \<and> fst p < ncols (rgb st)"
    if "p \<in> set (concat (rows (idx_map st)))" for p
    using set_concat_rows [OF wf that] assms by (auto simp add: carver_inv_def)
  then have "list_all (\<lambda>p. snd p < nrows (rgb st) \<and> fst p < ncols (rgb st))
               (concat (rows (idx_map st)))"
    unfolding list_all_iff by blast
  then show ?thesis
    by (simp add: paint_seams_def sub same_core_def Let_def del: set_concat)
qed

lemma seams_removal_none:
  assumes "carver_inv h0 w0 st" "n \<le> 0"
  shows "\<exists>st'. seams_removal strat n st = Inr st' \<and> same_core st st'"
proof -
  from paint_seams_ok [OF assms(1)] obtain st' where "paint_seams st = Inr st'" "same_core st st'"
    by blast
  with assms show ?thesis
    by (simp add: seams_removal_def err_bind_def carver_inv_def)
qed

lemma rotate_back_same_core:
  assumes "carver_inv h0 w0 st" "same_core (rotate_mats True st) st1"
  shows "same_core st (rotate_mats False st1)"
  using assms
  by (simp add: same_core_def rotate_mats_def Let_def carver_inv_def rot90_ccw_cw)

lemma seams_removal_horizontal_none:
  assumes "carver_inv h0 w0 st" "n \<le> 0"
  shows "\<exists>st'. seams_removal_horizontal strat n st = Inr st' \<and> same_core st st'"
proof -
  from seams_removal_none [OF inv_rotate [OF assms(1)] assms(2), of strat True]
  obtain st1 where 1: "seams_removal strat n (rotate_mats True st) = Inr st1"
    "same_core (rotate_mats True st) st1" by blast
  then show ?thesis
    using rotate_back_same_core [OF assms(1) 1(2)]
    by (simp add: seams_removal_horizontal_def err_bind_def)
qed

lemma same_core_trans: "same_core a b \<Longrightarrow> same_core b c \<Longrightarrow> same_core a c"
  by (simp add: same_core_def)

lemma init_ok:
  assumes "nrows img \<noteq> 1" "ncols img \<noteq> 1"
  shows "\<exists>st0. SeamImage_init strat img vis prev = Inr st0
         \<and> resized_rgb st0 = img \<and> resized_gs st0 = rgb_to_grayscale img
         \<and> idx_map st0 = mk_arr (nrows img) (ncols img) (\<lambda>i j. (j, i))
         \<and> self_h st0 = int (nrows img) \<and> self_w st0 = int (ncols img)
         \<and> vis_seams st0 = vis \<and> rgb st0 = img \<and> seam_history st0 = []"
  using assms by (cases strat) (simp_all add: SeamImage_init_def Let_def)

lemma resize_no_removal:
  assumes "wf_arr img" "nrows img \<noteq> 1" "ncols img \<noteq> 1"
    and "fst (fst shapes) - fst (snd shapes) \<le> 0" "snd (fst shapes) - snd (snd shapes) \<le> 0"
  shows "\<exists>st'. resize_seam_carving strat img seam_img shapes = Inr st'
         \<and> resized_rgb st' = img \<and> resized_gs st' = rgb_to_grayscale img
         \<and> idx_map st' = mk_arr (nrows img) (ncols img) (\<lambda>i j. (j, i))
         \<and> self_h st' = int (nrows img) \<and> self_w st' = int (ncols img)
         \<and> seam_history st' = []"
proof -
  from init_ok [OF assms(2,3), of strat True seam_img] obtain st0 where
    0: "SeamImage_init strat img True seam_img = Inr st0"
    and f: "resized_rgb st0 = img" "resized_gs st0 = rgb_to_grayscale img"
      "idx_map st0 = mk_arr (nrows img) (ncols img) (\<lambda>i j. (j, i))"
      "self_h st0 = int (nrows img)" "self_w st0 = int (ncols img)" "seam_history st0 = []"
    by blast
  have inv0: "carver_inv (nrows img) (ncols img) st0"
    using assms(1) 0 by (rule inv_init)
  from seams_removal_none [OF inv0 assms(5), of strat] obtain st1 where
    1: "seams_removal strat (snd (fst shapes) - snd (snd shapes)) st0 = Inr st1"
      "same_core st0 st1" by blast
  have inv1: "carver_inv (nrows img) (ncols img) st1"
    using inv0 1(2) by (simp add: same_core_inv)
  from seams_removal_horizontal_none [OF inv1 assms(4), of strat] obtain st2 where
    2: "seams_removal_horizontal strat (fst (fst shapes) - fst (snd shapes)) st1 = Inr st2"
      "same_core st1 st2" by blast
  have "same_core st0 st2" using 1(2) 2(2) by (rule same_core_trans)
  with f have "resized_rgb st2 = img \<and> resized_gs st2 = rgb_to_grayscale img
         \<and> idx_map st2 = mk_arr (nrows img) (ncols img) (\<lambda>i j. (j, i))
         \<and> self_h st2 = int (nrows img) \<and> self_w st2 = int (ncols img)
         \<and> seam_history st2 = []"
    by (simp add: same_core_def)
  moreover have "resize_seam_carving strat img seam_img shapes = Inr st2"
    using 0 1(1) 2(1)
    by (simp add: resize_seam_carving_def reinit_def err_bind_def Let_def
        seams_removal_vertical_def)
  ultimately show ?thesis by blast
qed

lemma seams_removal_nat:
  "seams_removal strat n st = seams_removal strat (max 0 n) st"
  by (simp add: seams_removal_def max_def)

lemma seams_removal_horizontal_nat:
  "seams_removal_horizontal strat n st = seams_removal_horizontal strat (max 0 n) st"
  using seams_removal_nat [of strat n] by (simp add: seams_removal_horizontal_def)

lemma resize_clamped:
  "resize_seam_carving strat img seam_img ((a, b), (c, d))
   = resize_seam_carving strat img seam_img ((max a c, max b d), (c, d))"
proof -
  have m: "max a c - c = max 0 (a - c)" "max b d - d = max 0 (b - d)"
    by (simp_all add: max_def)
  have v: "seams_removal_vertical strat (b - d) st = seams_removal_vertical strat (max b d - d) st"
    for st
    unfolding m seams_removal_vertical_def by (rule seams_removal_nat)
  have h: "seams_removal_horizontal strat (a - c) = seams_removal_horizontal strat (max a c - c)"
    unfolding m by (rule ext) (rule seams_removal_horizontal_nat)
  show ?thesis
    by (simp add: resize_seam_carving_def Let_def v h)
qed

subsection \<open>The DP finder always returns a seam; what a resize does to the shape\<close>

lemma argmin_from_bound: "bi < k \<Longrightarrow> argmin_from xs k best bi < k + length xs"
proof (induction xs arbitrary: k best bi)
  case Nil
  then show ?case by simp
next
  case (Cons x xs)
  have "argmin_from xs (Suc k) x k < Suc k + length xs"
    by (rule Cons.IH) simp
  moreover have "argmin_from xs (Suc k) best bi < Suc k + length xs"
    using Cons.prems by (intro Cons.IH) simp
  ultimately show ?case by simp
qed

lemma argmin_nonempty: "xs \<noteq> [] \<Longrightarrow> \<exists>k<length xs. argmin xs = Inr k"
  using argmin_from_bound [of 0 1 "tl xs" "hd xs"]
  by (cases xs) (simp_all add: argmin_def argmin_ne_def)

lemma shape_calc_C [simp]:
  "nrows (fst (calc_C gs)) = nrows gs" "ncols (fst (calc_C gs)) = ncols gs"
  "nrows (fst (snd (calc_C gs))) = nrows gs" "ncols (fst (snd (calc_C gs))) = ncols gs"
  "nrows (snd (snd (calc_C gs))) = nrows gs" "ncols (snd (snd (calc_C gs))) = ncols gs"
  by (simp_all add: calc_C_def Let_def)

lemma shape_set_row [simp]:
  "nrows (set_row a i r) = nrows a" "ncols (set_row a i r) = ncols a"
  by (simp_all add: set_row_def)

lemma wf_set_row: "wf_arr a \<Longrightarrow> length r = ncols a \<Longrightarrow> wf_arr (set_row a i r)"
proof (cases "i < length (rows a)")
  case True
  assume "wf_arr a" "length r = ncols a"
  with True show ?thesis
    by (simp add: wf_arr_def set_row_def list_all_length nth_list_update)
next
  case False
  then have "(rows a)[i := r] = rows a" by (metis list_update_beyond leI)
  moreover assume "wf_arr a" "length r = ncols a"
  ultimately show ?thesis
    by (simp add: wf_arr_def set_row_def)
qed

lemma calc_M_step_shape:
  assumes "dp_shape h w acc" "ncols E = w" "i < h"
  shows "dp_shape h w (calc_M_step E CL CV CR i acc)"
proof -
  have "length (row (fst acc) i) = w"
    using assms by (simp add: dp_shape_def row_def wf_arr_row_length)
  then show ?thesis
    using assms by (simp add: calc_M_step_def Let_def dp_shape_def wf_set_row)
qed

lemma calc_M_fold_shape:
  "\<forall>i\<in>set is. i < h \<Longrightarrow> dp_shape h w acc \<Longrightarrow> ncols E = w \<Longrightarrow>
   dp_shape h w (fold (calc_M_step E CL CV CR) is acc)"
  by (induction "is" arbitrary: acc) (simp_all add: calc_M_step_shape)

lemma calc_M_shape: "dp_shape (nrows E) (ncols E) (calc_M E CL CV CR)"
  unfolding calc_M_def
  by (rule calc_M_fold_shape) (simp_all add: dp_shape_def)

lemma get2_in_range:
  "0 \<le> i \<Longrightarrow> i < int (nrows a) \<Longrightarrow> 0 \<le> j \<Longrightarrow> j < int (ncols a) \<Longrightarrow>
   get2 a i j = Inr (cell a (nat i) (nat j))"
  by (simp add: get2_def py_index_def)

lemma dp_walk_ok:
  assumes "\<forall>i\<in>set is. i + 1 < nrows bt" "0 \<le> m" "m < w" "w = int (ncols bt)"
    and "\<forall>x\<in>set acc. 0 \<le> x \<and> x < w"
  shows "\<exists>seam. dp_walk bt w is m acc = Inr seam \<and> length seam = length acc + length is
           \<and> (\<forall>x\<in>set seam. 0 \<le> x \<and> x < w)"
  using assms
proof (induction "is" arbitrary: m acc)
  case Nil
  then show ?case by simp
next
  case (Cons i "is")
  let ?d = "cell bt (i + 1) (nat m)"
  let ?m = "max 0 (min (m + ?d) (w - 2))"
  have g: "get2 bt (int i + 1) m = Inr ?d"
    using Cons.prems get2_in_range [of "int i + 1" bt m] by (simp add: nat_add_distrib)
  have m: "0 \<le> ?m" "?m < w" using Cons.prems by auto
  have "\<exists>seam. dp_walk bt w is ?m (acc @ [?m]) = Inr seam
          \<and> length seam = length (acc @ [?m]) + length is
          \<and> (\<forall>x\<in>set seam. 0 \<le> x \<and> x < w)"
    using Cons.prems m by (intro Cons.IH) auto
  then show ?case by (simp add: g)
qed

lemma dp_backtrack_ok:
  assumes "wf_arr M" "nrows M = h" "ncols M = w" "nrows bt = h" "ncols bt = w" "0 < h" "0 < w"
  shows "\<exists>seam. dp_backtrack M bt (int h) (int w) = Inr seam \<and> length seam = h
           \<and> (\<forall>x\<in>set seam. 0 \<le> x \<and> x < int w)"
proof -
  have l: "py_index (nrows M) (- 1) = Inr (h - 1)"
    using assms(2,6) by (auto simp add: py_index_def)
  have "length (row M (h - 1)) = w"
    using assms by (simp add: row_def wf_arr_row_length)
  with assms(7) have "row M (h - 1) \<noteq> []" by auto
  from argmin_nonempty [OF this] \<open>length (row M (h - 1)) = w\<close>
  obtain k where k: "k < w" "argmin (row M (h - 1)) = Inr k" by auto
  have "\<exists>seam. dp_walk bt (int w) (rev [0..<nat (int h - 1)]) (int k) [int k] = Inr seam
          \<and> length seam = length [int k] + length (rev [0..<nat (int h - 1)])
          \<and> (\<forall>x\<in>set seam. 0 \<le> x \<and> x < int w)"
    using assms k by (intro dp_walk_ok) auto
  then obtain seam where s: "dp_walk bt (int w) (rev [0..<nat (int h - 1)]) (int k) [int k] = Inr seam"
    "length seam = h" "\<forall>x\<in>set seam. 0 \<le> x \<and> x < int w"
    using assms(6) by auto
  then show ?thesis
    by (simp add: dp_backtrack_def err_bind_def l k del: One_nat_def)
qed

lemma find_dp_ok:
  assumes "nrows (self_E st) = h" "ncols (self_E st) = w" "self_h st = int h" "self_w st = int w"
    "0 < h" "0 < w"
  shows "\<exists>seam. find_minimal_seam DP st = Inr (seam, init_mats st) \<and> length seam = h
           \<and> (\<forall>x\<in>set seam. 0 \<le> x \<and> x < int w)"
proof -
  let ?cs = "calc_C (resized_gs st)"
  let ?mb = "calc_M (self_E st) (fst (snd ?cs)) (fst ?cs) (snd (snd ?cs))"
  have sh: "dp_shape h w ?mb"
    using calc_M_shape [of "self_E st"] assms(1,2) by simp
  have f: "self_M (init_mats st) = fst ?mb" "backtrack_mat (init_mats st) = snd ?mb"
    by (simp_all add: init_mats_def Let_def)
  have "\<exists>seam. dp_backtrack (fst ?mb) (snd ?mb) (int h) (int w) = Inr seam \<and> length seam = h
           \<and> (\<forall>x\<in>set seam. 0 \<le> x \<and> x < int w)"
    using sh assms(5,6) by (intro dp_backtrack_ok) (simp_all add: dp_shape_def)
  then show ?thesis
    using assms(3,4) by (auto simp add: find_minimal_seam_def Let_def err_bind_def f)
qed

lemma remove_seam_effect:
  assumes "carver_inv h0 w0 st" "remove_seam st seam = (None, st')"
  shows "self_h st' = self_h st" "self_w st' = self_w st - 1"
    "seam_history st' = seam_history st"
proof -
  let ?h = "nrows (resized_rgb st)" and ?w = "ncols (resized_rgb st)"
  have ok: "seam_ok ?h ?w seam"
    using assms(2) remove_seam_fail [of st seam] by auto
  have h: "0 < ?h"
    using assms(2) remove_seam_no_rows [of st seam] by auto
  have "remove_seam st seam =
     (None,
      st\<lparr>resized_rgb := delete_cols (resized_rgb st) (seam_col ?w seam),
         resized_gs := delete_cols (resized_gs st) (seam_col ?w seam),
         idx_map := (if vis_seams st then delete_cols (idx_map st) (seam_col ?w seam)
                     else idx_map st),
         self_w := self_w st - 1\<rparr>)"
    using assms(1) h ok by (intro remove_seam_ok) (simp_all add: carver_inv_def)
  with assms(2) show "self_h st' = self_h st" "self_w st' = self_w st - 1"
    "seam_history st' = seam_history st"
    by auto
qed

lemma loop_effect:
  "seams_removal_loop strat n st = Inr st' \<Longrightarrow> carver_inv h0 w0 st \<Longrightarrow>
   self_h st' = self_h st \<and> self_w st' = self_w st - int n
   \<and> length (seam_history st') = length (seam_history st) + n"
proof (induction n arbitrary: st)
  case 0
  then show ?case by simp
next
  case (Suc n)
  let ?st0 = "st\<lparr>self_E := calc_gradient_magnitude (resized_gs st)\<rparr>"
  from Suc.prems(1) obtain found where f: "find_minimal_seam strat ?st0 = Inr found"
    by (auto split: sum.splits)
  let ?st1 = "(snd found)\<lparr>seam_history := seam_history (snd found) @ [fst found]\<rparr>"
  from Suc.prems(1) f obtain st2 where
    r: "remove_seam ?st1 (fst found) = (None, st2)" and l: "seams_removal_loop strat n st2 = Inr st'"
    by (auto split: prod.splits option.splits)
  have "carver_inv h0 w0 ?st0"
    using Suc.prems(2) by (simp add: carver_inv_def)
  then have "carver_inv h0 w0 (snd found)"
    by (simp add: inv_find [OF f])
  then have 1: "carver_inv h0 w0 ?st1"
    by (simp add: carver_inv_def)
  then have 2: "carver_inv h0 w0 st2"
    using r by (rule inv_remove)
  have e: "self_h st2 = self_h st" "self_w st2 = self_w st - 1"
    "length (seam_history st2) = length (seam_history st) + 1"
    using remove_seam_effect [OF 1 r] find_minimal_seam_fields [OF f] by simp_all
  from Suc.IH [OF l 2] e show ?case by simp
qed

lemma dp_loop_total:
  "carver_inv h0 w0 st \<Longrightarrow> 1 \<le> self_h st \<Longrightarrow> int n \<le> self_w st \<Longrightarrow>
   \<exists>st'. seams_removal_loop DP n st = Inr st'"
proof (induction n arbitrary: st)
  case 0
  then show ?case by simp
next
  case (Suc n)
  let ?st0 = "st\<lparr>self_E := calc_gradient_magnitude (resized_gs st)\<rparr>"
  let ?h = "nrows (resized_rgb st)" and ?w = "ncols (resized_rgb st)"
  have hw: "self_h st = int ?h" "self_w st = int ?w" "0 < ?h" "0 < ?w"
    using Suc.prems by (auto simp add: carver_inv_def)
  have "\<exists>seam. find_minimal_seam DP ?st0 = Inr (seam, init_mats ?st0) \<and> length seam = ?h
           \<and> (\<forall>x\<in>set seam. 0 \<le> x \<and> x < int ?w)"
    using Suc.prems(1) hw by (intro find_dp_ok) (simp_all add: carver_inv_def)
  then obtain seam where f: "find_minimal_seam DP ?st0 = Inr (seam, init_mats ?st0)"
    and s: "length seam = ?h" "\<forall>x\<in>set seam. 0 \<le> x \<and> x < int ?w" by blast
  let ?st1 = "(init_mats ?st0)\<lparr>seam_history := seam_history st @ [seam]\<rparr>"
  have 1: "carver_inv h0 w0 ?st1"
    using Suc.prems(1) by (simp add: carver_inv_def)
  have e: "0 \<le> seam ! i \<and> seam ! i < int ?w" if "i < ?h" for i
    using s that nth_mem [of i seam] by auto
  have ok: "seam_ok (nrows (resized_rgb ?st1)) (ncols (resized_rgb ?st1)) seam"
    using s(1) e by (fastforce simp add: seam_ok_iff)
  have "\<exists>st2. remove_seam ?st1 seam = (None, st2)"
    using 1 hw(3) by (subst remove_seam_ok [OF _ _ _ _ _ _ ok]) (simp_all add: carver_inv_def)
  then obtain st2 where r: "remove_seam ?st1 seam = (None, st2)" by blast
  have 2: "carver_inv h0 w0 st2" using 1 r by (rule inv_remove)
  have "self_h st2 = self_h st" "self_w st2 = self_w st - 1"
    using remove_seam_effect [OF 1 r] by simp_all
  with Suc.prems have "\<exists>st'. seams_removal_loop DP n st2 = Inr st'"
    using 2 by (intro Suc.IH) simp_all
  then show ?case by (simp add: f r)
qed

lemma seams_removal_effect:
  assumes "seams_removal strat n st = Inr st'" "carver_inv h0 w0 st"
  shows "carver_inv h0 w0 st'" "self_h st' = self_h st" "self_w st' = self_w st - int (nat n)"
    "length (seam_history st') = length (seam_history st) + nat n"
proof -
  from assms(1) obtain st1 where l: "seams_removal_loop strat (nat n) st = Inr st1"
    and p: "(if vis_seams st1 then paint_seams st1 else Inr st1) = Inr st'"
    by (auto simp add: seams_removal_def err_bind_def split: sum.splits)
  have 1: "carver_inv h0 w0 st1" using l assms(2) by (rule inv_loop)
  from paint_seams_ok [OF 1] p 1 have c: "same_core st1 st'"
    by (auto simp add: carver_inv_def)
  show "carver_inv h0 w0 st'" using assms by (rule inv_seams_removal)
  from loop_effect [OF l assms(2)] c
  show "self_h st' = self_h st" "self_w st' = self_w st - int (nat n)"
    "length (seam_history st') = length (seam_history st) + nat n"
    by (simp_all add: same_core_def)
qed

lemma dp_seams_removal_total:
  assumes "carver_inv h0 w0 st" "1 \<le> self_h st" "n \<le> self_w st"
  shows "\<exists>st'. seams_removal DP n st = Inr st'"
proof -
  have "int (nat n) \<le> self_w st" using assms(1,3) by (auto simp add: carver_inv_def)
  from dp_loop_total [OF assms(1,2) this] obtain st1 where
    l: "seams_removal_loop DP (nat n) st = Inr st1" by blast
  have 1: "carver_inv h0 w0 st1" using l assms(1) by (rule inv_loop)
  from paint_seams_ok [OF 1] obtain st' where "paint_seams st1 = Inr st'" by blast
  with l 1 show ?thesis
    by (simp add: seams_removal_def err_bind_def carver_inv_def)
qed

lemma rotate_mats_fields [simp]:
  "self_h (rotate_mats b st) = self_w st" "self_w (rotate_mats b st) = self_h st"
  "seam_history (rotate_mats b st) = seam_history st"
  by (simp_all add: rotate_mats_def Let_def)

lemma horizontal_effect:
  assumes "seams_removal_horizontal strat n st = Inr st'" "carver_inv h0 w0 st"
  shows "carver_inv h0 w0 st'" "self_w st' = self_w st" "self_h st' = self_h st - int (nat n)"
    "length (seam_history st') = length (seam_history st) + nat n"
proof -
  from assms(1) obtain st1 where l: "seams_removal strat n (rotate_mats True st) = Inr st1"
    and p: "st' = rotate_mats False st1"
    by (auto simp add: seams_removal_horizontal_def err_bind_def split: sum.splits)
  show "carver_inv h0 w0 st'" using assms by (rule inv_horizontal)
  from seams_removal_effect [OF l inv_rotate [OF assms(2)]]
  show "self_w st' = self_w st" "self_h st' = self_h st - int (nat n)"
    "length (seam_history st') = length (seam_history st) + nat n"
    unfolding p by simp_all
qed

lemma dp_horizontal_total:
  assumes "carver_inv h0 w0 st" "1 \<le> self_w st" "n \<le> self_h st"
  shows "\<exists>st'. seams_removal_horizontal DP n st = Inr st'"
proof -
  have "\<exists>st1. seams_removal DP n (rotate_mats True st) = Inr st1"
    using assms by (intro dp_seams_removal_total [OF inv_rotate [OF assms(1)]]) simp_all
  then show ?thesis
    by (auto simp add: seams_removal_horizontal_def err_bind_def)
qed

lemma resize_effect:
  assumes "resize_seam_carving strat img seam_img ((a, b), (c, d)) = Inr st'" "wf_arr img"
  shows "self_h st' = int (nrows img) - int (nat (a - c))"
    "self_w st' = int (ncols img) - int (nat (b - d))"
    "int (nrows (resized_rgb st')) = self_h st'" "int (ncols (resized_rgb st')) = self_w st'"
    "length (seam_history st') = nat (b - d) + nat (a - c)"
proof -
  from assms(1) obtain st0 st1 where
    0: "SeamImage_init strat img True seam_img = Inr st0"
    and 1: "seams_removal strat (b - d) st0 = Inr st1"
    and 2: "seams_removal_horizontal strat (a - c) st1 = Inr st'"
    by (auto simp add: resize_seam_carving_def reinit_def err_bind_def Let_def
        seams_removal_vertical_def split: sum.splits)
  have n1: "nrows img \<noteq> 1 \<and> ncols img \<noteq> 1"
    using 0 by (auto simp add: SeamImage_init_def split: if_splits)
  from init_ok [of img strat True seam_img] n1 0
  have f0: "self_h st0 = int (nrows img)" "self_w st0 = int (ncols img)" "seam_history st0 = []"
    by auto
  have i0: "carver_inv (nrows img) (ncols img) st0" using assms(2) 0 by (rule inv_init)
  note e1 = seams_removal_effect [OF 1 i0]
  note e2 = horizontal_effect [OF 2 e1(1)]
  show "self_h st' = int (nrows img) - int (nat (a - c))"
    "self_w st' = int (ncols img) - int (nat (b - d))"
    "length (seam_history st') = nat (b - d) + nat (a - c)"
    using e1 e2 f0 by simp_all
  show "int (nrows (resized_rgb st')) = self_h st'" "int (ncols (resized_rgb st')) = self_w st'"
    using e2(1) by (simp_all add: carver_inv_def)
qed

lemma dp_resize_total:
  assumes "wf_arr img" "2 \<le> nrows img" "2 \<le> ncols img"
    and "b - d < int (ncols img)" "a - c \<le> int (nrows img)"
  shows "\<exists>st'. resize_seam_carving DP img seam_img ((a, b), (c, d)) = Inr st'"
proof -
  from init_ok [of img DP True seam_img] assms(2,3) obtain st0 where
    0: "SeamImage_init DP img True seam_img = Inr st0"
    and f0: "self_h st0 = int (nrows img)" "self_w st0 = int (ncols img)"
    by auto
  have i0: "carver_inv (nrows img) (ncols img) st0" using assms(1) 0 by (rule inv_init)
  from dp_seams_removal_total [OF i0, of "b - d"] assms f0 obtain st1 where
    1: "seams_removal DP (b - d) st0 = Inr st1" by auto
  note e1 = seams_removal_effect [OF 1 i0]
  have "1 \<le> self_w st1" "a - c \<le> self_h st1"
    using e1 f0 assms by auto
  from dp_horizontal_total [OF e1(1) this] obtain st2 where
    "seams_removal_horizontal DP (a - c) st1 = Inr st2" by blast
  with 0 1 show ?thesis
    by (simp add: resize_seam_carving_def reinit_def err_bind_def Let_def
        seams_removal_vertical_def)
qed

lemma argmin_ne_3: "argmin_ne x [y, z] < 3"
  using argmin_from_bound [of 0 1 "[y, z]" x] by (simp add: argmin_ne_def)

lemma dirs_ok_set_row:
  assumes "dirs_ok bt" "\<forall>x\<in>set r. x = - 1 \<or> x = 0 \<or> x = 1"
  shows "dirs_ok (set_row bt i r)"
proof -
  have "set ((rows bt)[i := r]) \<subseteq> insert r (set (rows bt))"
    by (rule set_update_subset_insert)
  with assms show ?thesis
    by (auto simp add: dirs_ok_def set_row_def)
qed

lemma dir_of_index:
  assumes "k < 3"
  shows "[- 1, 0, 1 :: int] ! k = - 1 \<or> [- 1, 0, 1 :: int] ! k = 0 \<or> [- 1, 0, 1 :: int] ! k = 1"
proof -
  from assms have "k = 0 \<or> k = 1 \<or> k = 2" by arith
  then show ?thesis by auto
qed

lemma dirs_of_argmin:
  "\<forall>x\<in>set (map (\<lambda>k. [- 1, 0, 1 :: int] ! k) (map (\<lambda>j. argmin_ne (f j) [g j, h j]) js)).
     x = - 1 \<or> x = 0 \<or> x = 1"
proof
  fix x assume "x \<in> set (map (\<lambda>k. [- 1, 0, 1 :: int] ! k) (map (\<lambda>j. argmin_ne (f j) [g j, h j]) js))"
  then obtain j where "x = [- 1, 0, 1] ! argmin_ne (f j) [g j, h j]" by auto
  then show "x = - 1 \<or> x = 0 \<or> x = 1"
    using dir_of_index [OF argmin_ne_3 [of "f j" "g j" "h j"]] by simp
qed

lemma calc_M_step_dirs:
  assumes "dirs_ok (snd acc)"
  shows "dirs_ok (snd (calc_M_step E CL CV CR i acc))"
  unfolding calc_M_step_def Let_def snd_conv
  using assms by (rule dirs_ok_set_row) (rule dirs_of_argmin)

lemma calc_M_fold_dirs:
  "dirs_ok (snd acc) \<Longrightarrow> dirs_ok (snd (fold (calc_M_step E CL CV CR) is acc))"
  by (induction "is" arbitrary: acc) (simp_all add: calc_M_step_dirs)

lemma calc_M_dirs: "dirs_ok (snd (calc_M E CL CV CR))"
  unfolding calc_M_def
  by (rule calc_M_fold_dirs) (auto simp add: dirs_ok_def rows_mk_arr)

lemma dirs_ok_cell:
  assumes "dirs_ok bt" "wf_arr bt" "i < nrows bt" "j < ncols bt"
  shows "cell bt i j = - 1 \<or> cell bt i j = 0 \<or> cell bt i j = 1"
proof -
  have "rows bt ! i \<in> set (rows bt)" "length (rows bt ! i) = ncols bt"
    using assms(2,3) by (simp_all add: wf_arr_def list_all_length)
  then have "rows bt ! i ! j \<in> set (rows bt ! i)"
    using assms(4) by simp
  with \<open>rows bt ! i \<in> set (rows bt)\<close> assms(1) show ?thesis
    unfolding dirs_ok_def cell_def by blast
qed

lemma seam_connected_snoc:
  assumes "seam_connected acc" "acc \<noteq> []" "\<bar>m - last acc\<bar> \<le> 1"
  shows "seam_connected (acc @ [m])"
  unfolding seam_connected_def
proof (intro allI impI)
  fix i assume i: "i + 1 < length (acc @ [m])"
  show "\<bar>(acc @ [m]) ! (i + 1) - (acc @ [m]) ! i\<bar> \<le> 1"
  proof (cases "i + 1 < length acc")
    case True
    with assms(1) show ?thesis by (simp add: seam_connected_def nth_append)
  next
    case False
    with i have l: "i + 1 = length acc" by simp
    then have "i = length acc - 1" by simp
    then have "(acc @ [m]) ! i = last acc"
      using assms(2) l by (simp add: nth_append last_conv_nth)
    moreover have "(acc @ [m]) ! (i + 1) = m"
      using l by (simp add: nth_append)
    ultimately show ?thesis using assms(3) by simp
  qed
qed

lemma seam_connected_rev: "seam_connected seam \<Longrightarrow> seam_connected (rev seam)"
  unfolding seam_connected_def
proof (intro allI impI)
  fix i assume c: "\<forall>i. i + 1 < length seam \<longrightarrow> \<bar>seam ! (i + 1) - seam ! i\<bar> \<le> 1"
    and i: "i + 1 < length (rev seam)"
  let ?k = "length seam - 1 - (i + 1)"
  have k: "?k + 1 < length seam" "?k + 1 = length seam - 1 - i" using i by auto
  have "rev seam ! (i + 1) = seam ! ?k" "rev seam ! i = seam ! (?k + 1)"
    using i k by (simp_all add: rev_nth)
  moreover have "\<bar>seam ! (?k + 1) - seam ! ?k\<bar> \<le> 1"
    using c k(1) by blast
  ultimately show "\<bar>rev seam ! (i + 1) - rev seam ! i\<bar> \<le> 1"
    by (simp add: abs_minus_commute)
qed

lemma dp_walk_connected:
  assumes "\<forall>i\<in>set is. i + 1 < nrows bt" "0 \<le> m" "m < w" "w = int (ncols bt)"
    and "dirs_ok bt" "wf_arr bt" "seam_connected acc" "acc \<noteq> []" "last acc = m"
    and "dp_walk bt w is m acc = Inr seam"
  shows "seam_connected seam"
  using assms
proof (induction "is" arbitrary: m acc)
  case Nil
  then show ?case by simp
next
  case (Cons i "is")
  let ?d = "cell bt (i + 1) (nat m)"
  let ?m = "max 0 (min (m + ?d) (w - 2))"
  have g: "get2 bt (int i + 1) m = Inr ?d"
    using Cons.prems get2_in_range [of "int i + 1" bt m] by (simp add: nat_add_distrib)
  have d: "?d = - 1 \<or> ?d = 0 \<or> ?d = 1"
    using Cons.prems by (intro dirs_ok_cell) auto
  have m: "0 \<le> ?m" "?m < w" "\<bar>?m - m\<bar> \<le> 1"
    using Cons.prems(2,3) d by (simp_all add: max_def min_def) linarith+
  have c: "seam_connected (acc @ [?m])"
    using Cons.prems(7,8,9) m(3) by (intro seam_connected_snoc) simp_all
  have w: "dp_walk bt w is ?m (acc @ [?m]) = Inr seam"
    using Cons.prems(10) by (simp add: g)
  have p: "\<forall>i\<in>set is. i + 1 < nrows bt"
    using Cons.prems(1) by simp
  show ?case
    by (rule Cons.IH [OF p m(1) m(2) Cons.prems(4,5,6) c _ _ w]) simp_all
qed

lemma dp_backtrack_connected:
  assumes "wf_arr M" "nrows M = h" "ncols M = w" "nrows bt = h" "ncols bt = w" "0 < h" "0 < w"
    and "wf_arr bt" "dirs_ok bt"
  shows "\<exists>seam. dp_backtrack M bt (int h) (int w) = Inr seam \<and> length seam = h
           \<and> (\<forall>x\<in>set seam. 0 \<le> x \<and> x < int w) \<and> seam_connected seam"
proof -
  have l: "py_index (nrows M) (- 1) = Inr (h - 1)"
    using assms(2,6) by (auto simp add: py_index_def)
  have "length (row M (h - 1)) = w"
    using assms by (simp add: row_def wf_arr_row_length)
  with assms(7) have "row M (h - 1) \<noteq> []" by auto
  from argmin_nonempty [OF this] \<open>length (row M (h - 1)) = w\<close>
  obtain k where k: "k < w" "argmin (row M (h - 1)) = Inr k" by auto
  have "\<exists>seam. dp_walk bt (int w) (rev [0..<nat (int h - 1)]) (int k) [int k] = Inr seam
          \<and> length seam = length [int k] + length (rev [0..<nat (int h - 1)])
          \<and> (\<forall>x\<in>set seam. 0 \<le> x \<and> x < int w)"
    using assms k by (intro dp_walk_ok) auto
  then obtain walk where s: "dp_walk bt (int w) (rev [0..<nat (int h - 1)]) (int k) [int k] = Inr walk"
    "length walk = h" "\<forall>x\<in>set walk. 0 \<le> x \<and> x < int w"
    using assms(6) by auto
  have "seam_connected walk"
    by (rule dp_walk_connected [OF _ _ _ _ assms(9,8) _ _ _ s(1)])
      (use assms k(1) in \<open>auto simp add: seam_connected_def\<close>)
  then have "seam_connected (rev walk)" by (rule seam_connected_rev)
  with s show ?thesis
    by (simp add: dp_backtrack_def err_bind_def l k del: One_nat_def)
qed

lemma dp_seam_valid:
  assumes "nrows E = h" "ncols E = w" "0 < h" "0 < w"
  shows "\<exists>seam. dp_backtrack (fst (calc_M E CL CV CR)) (snd (calc_M E CL CV CR)) (int h) (int w)
                = Inr seam
           \<and> length seam = h \<and> (\<forall>x\<in>set seam. 0 \<le> x \<and> x < int w) \<and> seam_connected seam"
proof -
  have "dp_shape h w (calc_M E CL CV CR)"
    using calc_M_shape [of E CL CV CR] assms(1,2) by simp
  then show ?thesis
    using assms(3,4) calc_M_dirs [of E CL CV CR]
    by (intro dp_backtrack_connected) (simp_all add: dp_shape_def)
qed

lemma dp_find_minimal_seam_valid:
  assumes "nrows (self_E st) = h" "ncols (self_E st) = w" "self_h st = int h" "self_w st = int w"
    "0 < h" "0 < w"
  shows "\<exists>seam. find_minimal_seam DP st = Inr (seam, init_mats st) \<and> length seam = h
           \<and> (\<forall>x\<in>set seam. 0 \<le> x \<and> x < int w) \<and> seam_connected seam"
proof -
  let ?cs = "calc_C (resized_gs st)"
  let ?mb = "calc_M (self_E st) (fst (snd ?cs)) (fst ?cs) (snd (snd ?cs))"
  have f: "self_M (init_mats st) = fst ?mb" "backtrack_mat (init_mats st) = snd ?mb"
    by (simp_all add: init_mats_def Let_def)
  from dp_seam_valid [OF assms(1,2,5,6), of "fst (snd ?cs)" "fst ?cs" "snd (snd ?cs)"]
  show ?thesis
    using assms(3,4) by (auto simp add: find_minimal_seam_def Let_def err_bind_def f)
qed

lemma wf_img_black_10x10:
  "wf_arr img_black_10x10" "nrows img_black_10x10 = 10" "ncols img_black_10x10 = 10"
  by (simp_all add: img_black_10x10_def)

lemma gs_img_black_2x3: "rgb_to_grayscale img_black_2x3 = gs_black_2x3"
  by (simp add: rgb_to_grayscale_def img_black_2x3_def gs_black_2x3_def arr_map_def mk_arr_def
      cell_def upt_conv_Cons)

lemma init_black_2x3:
  "\<exists>st. SeamImage_init Greedy img_black_2x3 True blank = Inr st
     \<and> resized_gs st = gs_black_2x3 \<and> self_E st = calc_gradient_magnitude gs_black_2x3"
  by (simp add: SeamImage_init_def Let_def gs_img_black_2x3) (simp add: img_black_2x3_def)

lemma greedy_seam_black_2x3:
  "greedy_seam (calc_gradient_magnitude gs_black_2x3) (C_L_of gs_black_2x3)
     (C_V_of gs_black_2x3) (C_R_of gs_black_2x3) = Inr [0, - 1]"
  by (simp add: E_black_2x3 C_black_2x3 C_L_of_def C_V_of_def C_R_of_def greedy_seam_def
      err_bind_def py_index_def argmin_def argmin_ne_def row_def greedy_step_def
      greedy_candidates_def cand_def get2_def cell_def upt_conv_Cons)

section \<open>Claims\<close>

text \<open>
  C8. The directional cost grids are computed from the current grayscale with circular
  wrap at the top and bottom rows: for every cell \<open>(i, j)\<close> of an \<open>h \<times> w\<close> grayscale,
  \<open>C_V[i][j] = |gs[i+1][j] - gs[i-1][j]|\<close>,
  \<open>C_L[i][j] = C_V[i][j] + |gs[i-1][j] - gs[i][j-1]|\<close> and
  \<open>C_R[i][j] = C_V[i][j] + |gs[i+1][j] - gs[i][j-1]|\<close>, the row indices \<open>i-1\<close> and
  \<open>i+1\<close> taken modulo the height. The column \<open>j-1\<close> is \<open>j-1\<close> for \<open>j > 0\<close>;
  for \<open>j = 0\<close> it is Python's column \<open>-1\<close>, the last one (\<open>np.roll\<close> along axis 1).
\<close>

theorem calc_C_cells:
  assumes "i < nrows gs" and "j < ncols gs"
  shows "cell (C_V_of gs) i j =
           \<bar>cell gs ((i + 1) mod nrows gs) j - cell gs ((i + nrows gs - 1) mod nrows gs) j\<bar>
       \<and> cell (C_L_of gs) i j =
           cell (C_V_of gs) i j
           + \<bar>cell gs ((i + nrows gs - 1) mod nrows gs) j
              - cell gs i (if j = 0 then ncols gs - 1 else j - 1)\<bar>
       \<and> cell (C_R_of gs) i j =
           cell (C_V_of gs) i j
           + \<bar>cell gs ((i + 1) mod nrows gs) j
              - cell gs i (if j = 0 then ncols gs - 1 else j - 1)\<bar>
       \<and> nrows (C_V_of gs) = nrows gs \<and> ncols (C_V_of gs) = ncols gs
       \<and> nrows (C_L_of gs) = nrows gs \<and> ncols (C_L_of gs) = ncols gs
       \<and> nrows (C_R_of gs) = nrows gs \<and> ncols (C_R_of gs) = ncols gs"
proof -
  have p: "(j + ncols gs - 1) mod ncols gs = (if j = 0 then ncols gs - 1 else j - 1)"
    using assms(2) prev_index_pos [of j "ncols gs"] prev_index_zero [of "ncols gs"]
    by (cases "j = 0") simp_all
  show ?thesis
    using assms
    by (simp add: C_V_of_def C_L_of_def C_R_of_def calc_C_def Let_def
        cell_roll_next_row cell_roll_prev_row cell_roll_prev_col p del: One_nat_def)
qed

theorem calc_C_cells_witness:
  "(0::nat) < nrows (Arr 3 2 [[0, 1], [2, 4], [8, 16]])
   \<and> (0::nat) < ncols (Arr 3 2 [[0, 1], [2, 4], [8, 16::real]])
   \<and> cell (C_V_of (Arr 3 2 [[0, 1], [2, 4], [8, 16]])) 0 0 = 6
   \<and> cell (C_L_of (Arr 3 2 [[0, 1], [2, 4], [8, 16]])) 0 0 = 13
   \<and> cell (C_R_of (Arr 3 2 [[0, 1], [2, 4], [8, 16]])) 0 0 = 7"
  using calc_C_cells [of 0 "Arr 3 2 [[0, 1], [2, 4], [8, 16]]" 0]
  by (simp add: cell_def)

text \<open>
  C9. \<open>calc_gradient_magnitude\<close> pads the grayscale by one row and one column with the
  constant 0.5, takes forward differences along the row and the column axis of the
  padded grid, and returns \<open>sqrt(dx\<^sup>2 + dy\<^sup>2)\<close>; for a grayscale with all values in
  \<open>[0, 1]\<close>, every output value lies in \<open>[0, sqrt 2]\<close>. (Floats are the reals here.)
\<close>

theorem gradient_magnitude_range:
  assumes "i < nrows gs" and "j < ncols gs"
    and "\<forall>i<nrows gs. \<forall>j<ncols gs. 0 \<le> cell gs i j \<and> cell gs i j \<le> 1"
  shows "nrows (calc_gradient_magnitude gs) = nrows gs
       \<and> ncols (calc_gradient_magnitude gs) = ncols gs
       \<and> (\<forall>i'\<le>nrows gs. \<forall>j'\<le>ncols gs.
             cell (pad_end (1 / 2) gs) i' j' =
               (if i' < nrows gs \<and> j' < ncols gs then cell gs i' j' else 1 / 2))
       \<and> cell (calc_gradient_magnitude gs) i j =
           sqrt ((cell (pad_end (1 / 2) gs) (i + 1) j - cell (pad_end (1 / 2) gs) i j)\<^sup>2
                + (cell (pad_end (1 / 2) gs) i (j + 1) - cell (pad_end (1 / 2) gs) i j)\<^sup>2)
       \<and> 0 \<le> cell (calc_gradient_magnitude gs) i j
       \<and> cell (calc_gradient_magnitude gs) i j \<le> sqrt 2"
proof -
  let ?p = "cell (pad_end (1 / 2) gs)"
  have r: "0 \<le> ?p i' j' \<and> ?p i' j' \<le> 1" if "i' \<le> nrows gs" "j' \<le> ncols gs" for i' j'
    using assms(3) that by (simp add: cell_pad_end)
  have a: "(?p (i + 1) j - ?p i j)\<^sup>2 \<le> 1"
    using r [of "i + 1" j] r [of i j] assms(1,2) by (intro unit_diff_sq) simp_all
  have b: "(?p i (j + 1) - ?p i j)\<^sup>2 \<le> 1"
    using r [of i "j + 1"] r [of i j] assms(1,2) by (intro unit_diff_sq) simp_all
  have u: "sqrt ((?p (i + 1) j - ?p i j)\<^sup>2 + (?p i (j + 1) - ?p i j)\<^sup>2) \<le> sqrt 2"
    using a b by (intro real_sqrt_le_mono) simp
  have c: "\<forall>i'\<le>nrows gs. \<forall>j'\<le>ncols gs.
             ?p i' j' = (if i' < nrows gs \<and> j' < ncols gs then cell gs i' j' else 1 / 2)"
    by (simp add: cell_pad_end)
  show ?thesis
    using u c by (simp add: cell_gradient [OF assms(1,2)])
qed

theorem gradient_magnitude_range_witness:
  "cell (calc_gradient_magnitude gs_2x2) 1 1 = sqrt (1 / 2)
   \<and> cell (calc_gradient_magnitude gs_2x2) 1 1 \<le> sqrt 2
   \<and> cell (calc_gradient_magnitude gs_2x2) 0 0 = sqrt (17 / 16)"
proof -
  have h: "\<forall>i<nrows gs_2x2. \<forall>j<ncols gs_2x2. 0 \<le> cell gs_2x2 i j \<and> cell gs_2x2 i j \<le> 1"
    by (simp add: gs_2x2_def cell_def less_Suc_eq numeral_2_eq_2)
  show ?thesis
    using gradient_magnitude_range [of 1 gs_2x2 1, OF _ _ h]
      gradient_magnitude_range [of 0 gs_2x2 0, OF _ _ h]
    by (simp add: gs_2x2_def cell_def power2_eq_square)
qed

text \<open>
  C1. In the DP seam finder the claim reads: \<open>M[0] = E[0]\<close> and, for \<open>i > 0\<close>,
  \<open>M[i][j] = E[i][j] + min(M[i-1][j-1] + C_L[i][j], M[i-1][j] + C_V[i][j],
  M[i-1][j+1] + C_R[i][j])\<close>, the left candidate being \<open>+\<infinity>\<close> at \<open>j = 0\<close> and the
  right one at \<open>j = w-1\<close>. \<open>calc_M\<close> takes the three costs from row \<open>i-1\<close> of the cost
  grids (\<open>CL = self.C_L[i - 1]\<close>), not from row \<open>i\<close>. On the \<open>3 \<times> 2\<close> grayscale with a
  black row above two white rows, \<open>M[1][0]\<close> is \<open>E[1][0] + M[0][0] + C_V[0][0] = 1\<close>,
  while the claim's right-hand side is \<open>E[1][0] + M[0][0] + C_V[1][0] = 2\<close>.
\<close>

theorem calc_M_uses_cost_row_above:
  "cell (fst (calc_M (calc_gradient_magnitude gs_3x2) (C_L_of gs_3x2) (C_V_of gs_3x2)
                (C_R_of gs_3x2))) 1 0 = Fin 1
   \<and> cadd (Fin (cell (calc_gradient_magnitude gs_3x2) 1 0))
        (min (cadd (cell (fst (calc_M (calc_gradient_magnitude gs_3x2) (C_L_of gs_3x2)
                                 (C_V_of gs_3x2) (C_R_of gs_3x2))) 0 0)
                   (Fin (cell (C_V_of gs_3x2) 1 0)))
             (cadd (cell (fst (calc_M (calc_gradient_magnitude gs_3x2) (C_L_of gs_3x2)
                                 (C_V_of gs_3x2) (C_R_of gs_3x2))) 0 1)
                   (Fin (cell (C_R_of gs_3x2) 1 0)))) = Fin 2
   \<and> cadd (Fin (cell (calc_gradient_magnitude gs_3x2) 1 0))
        (min (cadd (cell (fst (calc_M (calc_gradient_magnitude gs_3x2) (C_L_of gs_3x2)
                                 (C_V_of gs_3x2) (C_R_of gs_3x2))) 0 0)
                   (Fin (cell (C_V_of gs_3x2) 0 0)))
             (cadd (cell (fst (calc_M (calc_gradient_magnitude gs_3x2) (C_L_of gs_3x2)
                                 (C_V_of gs_3x2) (C_R_of gs_3x2))) 0 1)
                   (Fin (cell (C_R_of gs_3x2) 0 0)))) = Fin 1"
  unfolding M_3x2
  by (simp add: E_3x2 C_3x2 C_V_of_def C_R_of_def cell_def min_def)

text \<open>
  C3. In the greedy seam finder the claim reads: from column \<open>c\<close> the candidates are left
  (only if \<open>c > 0\<close>), center, and right (only if \<open>c < w-1\<close>), and the next column is the
  column of the cheapest candidate, ties broken left-center-right. The code moves to
  \<open>min_idx + direction - 1\<close>, where \<open>direction\<close> is the position in the candidate list;
  at \<open>c = 0\<close> the list starts with the center, so choosing the center moves to column
  \<open>-1\<close>. On the all-black \<open>2 \<times> 3\<close> image, from row 0 and column 0 the candidates are
  center \<open>1/2\<close> and right \<open>1/2\<close>; the center wins the tie and the next column is \<open>-1\<close>.
\<close>

theorem greedy_step_left_edge:
  "greedy_candidates (calc_gradient_magnitude gs_black_2x3) (C_L_of gs_black_2x3)
     (C_V_of gs_black_2x3) (C_R_of gs_black_2x3) 3 0 0 = Inr [1 / 2, 1 / 2]
   \<and> greedy_step (calc_gradient_magnitude gs_black_2x3) (C_L_of gs_black_2x3)
     (C_V_of gs_black_2x3) (C_R_of gs_black_2x3) 3 0 0 = Inr (- 1)"
  by (simp add: E_black_2x3 C_black_2x3 C_L_of_def C_V_of_def C_R_of_def err_bind_def
      py_index_def argmin_def argmin_ne_def greedy_step_def greedy_candidates_def cand_def
      get2_def cell_def)

text \<open>
  C2. The claim reads: every seam produced by \<open>find_minimal_seam\<close> (greedy or DP) on an
  image of height \<open>h\<close> and width \<open>w \<ge> 2\<close> has length \<open>h\<close>, entries in \<open>[0, w)\<close> and
  adjacent entries that differ by at most 1. On a carver constructed from the all-black
  \<open>2 \<times> 3\<close> image the greedy \<open>find_minimal_seam\<close> returns the seam \<open>[0, -1]\<close>, whose
  second entry is negative.
\<close>

theorem greedy_seam_leaves_range:
  "\<not> isl (SeamImage_init Greedy img_black_2x3 True blank)
   \<and> resized_gs (projr (SeamImage_init Greedy img_black_2x3 True blank)) = gs_black_2x3
   \<and> map_sum id fst (find_minimal_seam Greedy (projr (SeamImage_init Greedy img_black_2x3 True blank)))
       = Inr [0, - 1]"
proof -
  from init_black_2x3 obtain st where st: "SeamImage_init Greedy img_black_2x3 True blank = Inr st"
    "resized_gs st = gs_black_2x3" "self_E st = calc_gradient_magnitude gs_black_2x3" by blast
  have "map_sum id fst (find_minimal_seam Greedy st) = Inr [0, - 1]"
    using greedy_seam_black_2x3
    by (simp add: find_minimal_seam_def Let_def st(2,3) C_L_of_def C_V_of_def C_R_of_def err_bind_def)
  with st show ?thesis by simp
qed

text \<open>
  C10. For every state of the carver, \<open>rotate_mats(clockwise=True)\<close> immediately followed
  by \<open>rotate_mats(clockwise=False)\<close> restores the RGB buffer, the grayscale buffer, the
  index map and the stored height and width (and leaves every other attribute as it
  was): the resulting state is the state before the two calls. The hypotheses say that
  the three buffers are arrays: every row has the length the shape gives.
\<close>

theorem rotate_mats_round_trip:
  assumes "wf_arr (resized_rgb st)" and "wf_arr (resized_gs st)"
    and "vis_seams st \<longrightarrow> wf_arr (idx_map st)"
  shows "rotate_mats False (rotate_mats True st) = st"
  using assms by (simp add: rotate_mats_def Let_def rot90_ccw_cw)

theorem rotate_mats_round_trip_witness:
  "wf_arr (resized_rgb carver_2x3) \<and> wf_arr (resized_gs carver_2x3)
   \<and> wf_arr (idx_map carver_2x3)
   \<and> nrows (resized_rgb (rotate_mats True carver_2x3)) = 3
   \<and> self_h (rotate_mats True carver_2x3) = 3
   \<and> rotate_mats False (rotate_mats True carver_2x3) = carver_2x3"
  using rotate_mats_round_trip [of carver_2x3]
  by (simp add: carver_2x3_fields wf_img_2x3 rgb_to_grayscale_def rotate_mats_def Let_def)

text \<open>
  C5. The claim reads: \<open>remove_seam\<close> requires a seam of length equal to the current height
  with every entry in \<open>[0, w)\<close>, and on a malformed seam it fails fast without mutating
  the RGB buffer, the grayscale buffer, the index map or the stored width. The method
  has no check of its own; a failure is the IndexError of \<open>seam[i]\<close> or of
  \<open>mask[i, seam[i]]\<close>. As amended: with \<open>h\<close> and \<open>w\<close> the current height and width,
  \<open>remove_seam\<close> raises IndexError and leaves the whole state as it was when the seam has
  fewer than \<open>h\<close> entries or one of its first \<open>h\<close> entries is outside \<open>[-w, w)\<close>;
  when the seam has at least \<open>h\<close> entries, the first \<open>h\<close> of them in \<open>[-w, w)\<close>, and
  \<open>h > 0\<close>, it succeeds: in every row \<open>i\<close> the column \<open>seam[i]\<close> (counted from the right
  end when negative) is deleted from the RGB buffer, the grayscale buffer and (under
  \<open>vis_seams\<close>) the index map, and the stored width decreases by one. Entries beyond the
  first \<open>h\<close> are not read.
\<close>

theorem remove_seam_fails_unchanged:
  "(length seam < nrows (resized_rgb st)
      \<or> (\<exists>i<nrows (resized_rgb st).
            seam ! i < - int (ncols (resized_rgb st)) \<or> int (ncols (resized_rgb st)) \<le> seam ! i)
    \<longrightarrow> remove_seam st seam = (Some IndexError, st))
   \<and> (nrows (resized_rgb st) \<le> length seam
      \<and> (\<forall>i<nrows (resized_rgb st).
            - int (ncols (resized_rgb st)) \<le> seam ! i \<and> seam ! i < int (ncols (resized_rgb st)))
      \<and> 0 < nrows (resized_rgb st)
      \<and> wf_arr (resized_rgb st) \<and> wf_arr (resized_gs st)
      \<and> nrows (resized_gs st) = nrows (resized_rgb st)
      \<and> ncols (resized_gs st) = ncols (resized_rgb st)
      \<and> (vis_seams st \<longrightarrow> wf_arr (idx_map st) \<and> nrows (idx_map st) = nrows (resized_rgb st)
             \<and> ncols (idx_map st) = ncols (resized_rgb st))
    \<longrightarrow> remove_seam st seam =
         (None,
          st\<lparr>resized_rgb := delete_cols (resized_rgb st) (seam_col (ncols (resized_rgb st)) seam),
             resized_gs := delete_cols (resized_gs st) (seam_col (ncols (resized_rgb st)) seam),
             idx_map := (if vis_seams st
                         then delete_cols (idx_map st) (seam_col (ncols (resized_rgb st)) seam)
                         else idx_map st),
             self_w := self_w st - 1\<rparr>))"
proof (intro conjI impI)
  assume "length seam < nrows (resized_rgb st)
      \<or> (\<exists>i<nrows (resized_rgb st).
            seam ! i < - int (ncols (resized_rgb st)) \<or> int (ncols (resized_rgb st)) \<le> seam ! i)"
  then have "\<not> seam_ok (nrows (resized_rgb st)) (ncols (resized_rgb st)) seam"
    by (auto simp add: seam_ok_iff)
  then show "remove_seam st seam = (Some IndexError, st)"
    by (rule remove_seam_fail)
next
  assume a: "nrows (resized_rgb st) \<le> length seam
      \<and> (\<forall>i<nrows (resized_rgb st).
            - int (ncols (resized_rgb st)) \<le> seam ! i \<and> seam ! i < int (ncols (resized_rgb st)))
      \<and> 0 < nrows (resized_rgb st)
      \<and> wf_arr (resized_rgb st) \<and> wf_arr (resized_gs st)
      \<and> nrows (resized_gs st) = nrows (resized_rgb st)
      \<and> ncols (resized_gs st) = ncols (resized_rgb st)
      \<and> (vis_seams st \<longrightarrow> wf_arr (idx_map st) \<and> nrows (idx_map st) = nrows (resized_rgb st)
             \<and> ncols (idx_map st) = ncols (resized_rgb st))"
  then have "seam_ok (nrows (resized_rgb st)) (ncols (resized_rgb st)) seam"
    by (auto simp add: seam_ok_iff)
  with a show "remove_seam st seam =
         (None,
          st\<lparr>resized_rgb := delete_cols (resized_rgb st) (seam_col (ncols (resized_rgb st)) seam),
             resized_gs := delete_cols (resized_gs st) (seam_col (ncols (resized_rgb st)) seam),
             idx_map := (if vis_seams st
                         then delete_cols (idx_map st) (seam_col (ncols (resized_rgb st)) seam)
                         else idx_map st),
             self_w := self_w st - 1\<rparr>)"
    by (intro remove_seam_ok) simp_all
qed

theorem remove_seam_fails_unchanged_witness:
  "remove_seam carver_2x3 [3, 0] = (Some IndexError, carver_2x3)
   \<and> remove_seam carver_2x3 [0] = (Some IndexError, carver_2x3)
   \<and> fst (remove_seam carver_2x3 [1, 0]) = None
   \<and> resized_gs (snd (remove_seam carver_2x3 [1, 0])) = Arr 2 2 [[0, 0], [1, 0]]
   \<and> self_w (snd (remove_seam carver_2x3 [1, 0])) = 2"
proof -
  have 1: "remove_seam carver_2x3 [3, 0] = (Some IndexError, carver_2x3)"
    using remove_seam_fails_unchanged [of "[3, 0]" carver_2x3]
    by (simp add: carver_2x3_shape ex_less_2)
  have 2: "remove_seam carver_2x3 [0] = (Some IndexError, carver_2x3)"
    using remove_seam_fails_unchanged [of "[0]" carver_2x3]
    by (simp add: carver_2x3_shape)
  have 3: "remove_seam carver_2x3 [1, 0] =
     (None, carver_2x3\<lparr>resized_rgb := delete_cols (resized_rgb carver_2x3) (seam_col 3 [1, 0]),
        resized_gs := delete_cols (resized_gs carver_2x3) (seam_col 3 [1, 0]),
        idx_map := delete_cols (idx_map carver_2x3) (seam_col 3 [1, 0]),
        self_w := self_w carver_2x3 - 1\<rparr>)"
    using remove_seam_fails_unchanged [of "[1, 0]" carver_2x3]
    by (simp add: carver_2x3_shape all_less_2 carver_2x3_fields(4))
  show ?thesis
    unfolding 3 by (simp add: 1 2 carver_2x3_fields(2,6) gs_img_2x3 delete_cols_gs_2x3)
qed

text \<open>
  C5, as stated, fails on the \<open>2 \<times> 3\<close> image \<open>img_2x3\<close> with the seam \<open>[-1, 0, 5]\<close>: the
  seam has three entries for two rows and its first entry is negative, yet the call
  raises nothing, deletes the last column of row 0 and the first of row 1, and the
  stored width goes from 3 to 2.
\<close>

theorem remove_seam_accepts_malformed_seam:
  "length [- 1, 0, 5 :: int] \<noteq> nrows (resized_rgb carver_2x3)
   \<and> \<not> (0 \<le> [- 1, 0, 5 :: int] ! 0)
   \<and> fst (remove_seam carver_2x3 [- 1, 0, 5]) = None
   \<and> resized_gs carver_2x3 = Arr 2 3 [[0, 1, 0], [1, 1, 0]]
   \<and> resized_gs (snd (remove_seam carver_2x3 [- 1, 0, 5])) = Arr 2 2 [[0, 1], [1, 0]]
   \<and> self_w carver_2x3 = 3
   \<and> self_w (snd (remove_seam carver_2x3 [- 1, 0, 5])) = 2"
proof -
  have ok: "seam_ok (nrows (resized_rgb carver_2x3)) (ncols (resized_rgb carver_2x3)) [- 1, 0, 5]"
    by (simp add: seam_ok_def carver_2x3_shape upt_conv_Cons)
  have 3: "remove_seam carver_2x3 [- 1, 0, 5] =
     (None, carver_2x3\<lparr>resized_rgb := delete_cols (resized_rgb carver_2x3) (seam_col 3 [- 1, 0, 5]),
        resized_gs := delete_cols (resized_gs carver_2x3) (seam_col 3 [- 1, 0, 5]),
        idx_map := delete_cols (idx_map carver_2x3) (seam_col 3 [- 1, 0, 5]),
        self_w := self_w carver_2x3 - 1\<rparr>)"
    using remove_seam_ok [of carver_2x3 "[- 1, 0, 5]", OF _ _ _ _ _ _ ok]
    by (simp add: carver_2x3_shape carver_2x3_fields(4))
  show ?thesis
    unfolding 3
    by (simp add: carver_2x3_shape carver_2x3_fields(2,6) gs_img_2x3 delete_cols_gs_2x3)
qed


text \<open>
  C4. The claim reads: after any sequence of seam removals starting from an original
  \<open>h0 \<times> w0\<close> image, for any value of the \<open>vis_seams\<close> flag, the index map has exactly
  (current height \<open>\<times>\<close> current width) entries, all pairwise distinct and all within the
  original image bounds. \<open>remove_seam\<close> and \<open>rotate_mats\<close> update the index map only
  under \<open>if self.vis_seams\<close>. As amended: when \<open>vis_seams\<close> is set, in every state reached
  from the constructor by successful calls of \<open>remove_seam\<close>, \<open>rotate_mats\<close>,
  \<open>seams_removal\<close> and \<open>seams_removal_horizontal\<close>, the index map has the stored height
  and width as its shape, so exactly height \<open>\<times>\<close> width entries, which are pairwise
  distinct and are (column, row) coordinates inside the original image.
\<close>

theorem idx_map_invariant:
  assumes "reachable strat img st"
  shows "nrows (idx_map st) = nat (self_h st) \<and> ncols (idx_map st) = nat (self_w st)
       \<and> length (concat (rows (idx_map st))) = nat (self_h st * self_w st)
       \<and> distinct (concat (rows (idx_map st)))
       \<and> (\<forall>p\<in>set (concat (rows (idx_map st))). fst p < ncols img \<and> snd p < nrows img)"
proof -
  have inv: "carver_inv (nrows img) (ncols img) st"
    using assms by (rule reachable_inv)
  then have wf: "wf_arr (idx_map st)" by (simp add: carver_inv_def)
  have h: "nrows (idx_map st) = nat (self_h st)" and w: "ncols (idx_map st) = nat (self_w st)"
    using inv by (auto simp add: carver_inv_def)
  have "0 \<le> self_h st" "0 \<le> self_w st"
    using inv by (auto simp add: carver_inv_def)
  then have l: "length (concat (rows (idx_map st))) = nat (self_h st * self_w st)"
    using length_concat_rows [OF wf] h w by (simp add: nat_mult_distrib)
  have d: "distinct (concat (rows (idx_map st)))"
    using inv by (intro distinct_concat_rows) (simp_all add: carver_inv_def)
  have b: "fst p < ncols img \<and> snd p < nrows img" if "p \<in> set (concat (rows (idx_map st)))" for p
    using set_concat_rows [OF wf that] inv by (auto simp add: carver_inv_def)
  from h w l d b show ?thesis by blast
qed

theorem idx_map_invariant_witness:
  "reachable Greedy img_2x3 (snd (remove_seam carver_2x3 [1, 0]))
   \<and> idx_map (snd (remove_seam carver_2x3 [1, 0])) = Arr 2 2 [[(0, 0), (2, 0)], [(1, 1), (2, 1)]]
   \<and> length (concat (rows (idx_map (snd (remove_seam carver_2x3 [1, 0]))))) = 4
   \<and> distinct (concat (rows (idx_map (snd (remove_seam carver_2x3 [1, 0])))))"
proof -
  have r: "reachable Greedy img_2x3 (snd (remove_seam carver_2x3 [1, 0]))"
    by (rule reachable.remove [OF reachable.start [OF wf_img_2x3(1) carver_2x3_init], of "[1, 0]"])
      (simp add: remove_seam_carver_2x3)
  show ?thesis
    using r idx_map_invariant [OF r]
    by (simp add: remove_seam_carver_2x3 carver_2x3_fields delete_cols_idx_2x3)
qed

text \<open>
  C4, as stated, fails with \<open>vis_seams = False\<close>: on the \<open>2 \<times> 3\<close> image \<open>img_2x3\<close>, after
  removing the seam \<open>[1, 0]\<close> the stored height and width are 2 and 2, and the index map
  still has its 6 original entries.
\<close>

theorem idx_map_stale_without_vis_seams:
  "SeamImage_init Greedy img_2x3 False blank = Inr carver_2x3_plain
   \<and> fst (remove_seam carver_2x3_plain [1, 0]) = None
   \<and> self_h (snd (remove_seam carver_2x3_plain [1, 0])) = 2
   \<and> self_w (snd (remove_seam carver_2x3_plain [1, 0])) = 2
   \<and> length (concat (rows (idx_map (snd (remove_seam carver_2x3_plain [1, 0]))))) = 6"
  by (simp add: carver_2x3_plain_init remove_seam_carver_2x3_plain carver_2x3_plain_fields
      mk_arr_def upt_conv_Cons)

text \<open>
  C6. The claim reads: for every resize request whose height delta or width delta is
  negative, the resize entry point fails before mutating any buffer, and does not
  silently leave the image unchanged. The entry point has no check of the deltas and
  never calls the seam addition: a delta goes to \<open>range(num_remove)\<close>, which is empty
  for a negative number. As amended: a resize request with a negative delta does not
  fail on that account; a negative delta acts as the delta 0 (the pass removes no
  seam), and when neither delta is positive the call returns with the RGB buffer, the
  grayscale buffer, the index map and the stored height and width as \<open>reinit\<close> set them
  from the loaded image, and with an empty seam history.
\<close>

theorem resize_negative_delta_removes_nothing:
  "resize_seam_carving strat img seam_img ((a, b), (c, d))
     = resize_seam_carving strat img seam_img ((max a c, max b d), (c, d))
   \<and> (wf_arr img \<and> 2 \<le> nrows img \<and> 2 \<le> ncols img \<and> a \<le> c \<and> b \<le> d \<longrightarrow>
        (\<exists>st'. resize_seam_carving strat img seam_img ((a, b), (c, d)) = Inr st'
           \<and> resized_rgb st' = img \<and> resized_gs st' = rgb_to_grayscale img
           \<and> idx_map st' = mk_arr (nrows img) (ncols img) (\<lambda>i j. (j, i))
           \<and> self_h st' = int (nrows img) \<and> self_w st' = int (ncols img)
           \<and> seam_history st' = []))"
proof (intro conjI impI)
  show "resize_seam_carving strat img seam_img ((a, b), (c, d))
     = resize_seam_carving strat img seam_img ((max a c, max b d), (c, d))"
    by (rule resize_clamped)
next
  assume "wf_arr img \<and> 2 \<le> nrows img \<and> 2 \<le> ncols img \<and> a \<le> c \<and> b \<le> d"
  then show "\<exists>st'. resize_seam_carving strat img seam_img ((a, b), (c, d)) = Inr st'
           \<and> resized_rgb st' = img \<and> resized_gs st' = rgb_to_grayscale img
           \<and> idx_map st' = mk_arr (nrows img) (ncols img) (\<lambda>i j. (j, i))
           \<and> self_h st' = int (nrows img) \<and> self_w st' = int (ncols img)
           \<and> seam_history st' = []"
    by (intro resize_no_removal) simp_all
qed

theorem resize_negative_delta_removes_nothing_witness:
  "\<exists>st'. resize_seam_carving DP img_2x3 blank ((2, 3), (3, 3)) = Inr st'
     \<and> resized_rgb st' = img_2x3
     \<and> resized_gs st' = Arr 2 3 [[0, 1, 0], [1, 1, 0]]
     \<and> self_h st' = 2 \<and> self_w st' = 3 \<and> seam_history st' = []"
  using resize_negative_delta_removes_nothing [of DP img_2x3 blank 2 3 3 3, THEN conjunct2]
  by (auto simp add: wf_img_2x3 gs_img_2x3)

text \<open>
  C6, as stated, fails on the \<open>2 \<times> 3\<close> image \<open>img_2x3\<close> with the request from shape
  \<open>(2, 3)\<close> to shape \<open>(3, 4)\<close>: both deltas are \<open>-1\<close>, the call returns normally, and the
  RGB buffer is the loaded image.
\<close>

theorem resize_negative_delta_returns:
  "\<not> isl (resize_seam_carving Greedy img_2x3 blank ((2, 3), (3, 4)))
   \<and> resized_rgb (projr (resize_seam_carving Greedy img_2x3 blank ((2, 3), (3, 4)))) = img_2x3
   \<and> self_h (projr (resize_seam_carving Greedy img_2x3 blank ((2, 3), (3, 4)))) = 2
   \<and> self_w (projr (resize_seam_carving Greedy img_2x3 blank ((2, 3), (3, 4)))) = 3"
proof -
  from resize_no_removal [of img_2x3 "((2, 3), (3, 4))" Greedy blank]
  obtain st' where "resize_seam_carving Greedy img_2x3 blank ((2, 3), (3, 4)) = Inr st'"
    "resized_rgb st' = img_2x3" "self_h st' = 2" "self_w st' = 3"
    by (auto simp add: wf_img_2x3)
  then show ?thesis by simp
qed

text \<open>
  C7. The claim reads: resizing an image from shape \<open>(10, 10)\<close> to shape \<open>(8, 10)\<close> via
  the resize entry point removes exactly 2 vertical seams and 0 horizontal seams. A
  shape is (height, width): the height delta is \<open>10 - 8 = 2\<close> and goes to
  \<open>seams_removal_horizontal\<close>, the width delta is \<open>0\<close> and goes to
  \<open>seams_removal_vertical\<close>. As amended: the resize removes exactly 0 vertical seams
  and 2 horizontal seams. On a \<open>10 \<times> 10\<close> image, whenever the call returns, the width is
  still 10, the height is 8 (stored values and RGB buffer alike) and the seam history
  holds 2 seams; with the DP finder the call always returns.
\<close>

theorem resize_10x10_to_8x10:
  assumes "wf_arr img" and "nrows img = 10" and "ncols img = 10"
  shows "(\<forall>strat st'. resize_seam_carving strat img seam_img ((10, 10), (8, 10)) = Inr st' \<longrightarrow>
            self_h st' = 8 \<and> self_w st' = 10
            \<and> nrows (resized_rgb st') = 8 \<and> ncols (resized_rgb st') = 10
            \<and> length (seam_history st') = 2)
       \<and> (\<exists>st'. resize_seam_carving DP img seam_img ((10, 10), (8, 10)) = Inr st')"
proof -
  have "self_h st' = 8 \<and> self_w st' = 10
            \<and> nrows (resized_rgb st') = 8 \<and> ncols (resized_rgb st') = 10
            \<and> length (seam_history st') = 2"
    if r: "resize_seam_carving strat img seam_img ((10, 10), (8, 10)) = Inr st'" for strat st'
  proof -
    note e = resize_effect [OF r assms(1)]
    have h: "self_h st' = 8" and w: "self_w st' = 10"
      using e(1,2) assms(2,3) by simp_all
    have "nrows (resized_rgb st') = 8" "ncols (resized_rgb st') = 10"
      using e(3,4) h w by simp_all
    moreover have "length (seam_history st') = 2"
      using e(5) by simp
    ultimately show ?thesis
      using h w by simp
  qed
  moreover have "\<exists>st'. resize_seam_carving DP img seam_img ((10, 10), (8, 10)) = Inr st'"
    using assms by (intro dp_resize_total) simp_all
  ultimately show ?thesis by blast
qed

theorem resize_10x10_to_8x10_witness:
  "\<exists>st'. resize_seam_carving DP img_black_10x10 blank ((10, 10), (8, 10)) = Inr st'
     \<and> self_h st' = 8 \<and> self_w st' = 10 \<and> length (seam_history st') = 2"
  using resize_10x10_to_8x10 [OF wf_img_black_10x10, of blank] by blast

text \<open>
  C7, as stated, fails on the all-black \<open>10 \<times> 10\<close> image with the DP finder: the call
  returns, the width is still 10 (no vertical seam was removed) and the height is 8 (two
  horizontal seams were).
\<close>

theorem resize_10x10_to_8x10_keeps_width:
  "\<not> isl (resize_seam_carving DP img_black_10x10 blank ((10, 10), (8, 10)))
   \<and> self_w (projr (resize_seam_carving DP img_black_10x10 blank ((10, 10), (8, 10)))) = 10
   \<and> ncols (resized_rgb
        (projr (resize_seam_carving DP img_black_10x10 blank ((10, 10), (8, 10))))) = 10
   \<and> self_h (projr (resize_seam_carving DP img_black_10x10 blank ((10, 10), (8, 10)))) = 8
   \<and> nrows (resized_rgb
        (projr (resize_seam_carving DP img_black_10x10 blank ((10, 10), (8, 10))))) = 8"
proof -
  from dp_resize_total [of img_black_10x10 10 10 10 8 blank]
  obtain st' where r: "resize_seam_carving DP img_black_10x10 blank ((10, 10), (8, 10)) = Inr st'"
    by (auto simp add: wf_img_black_10x10)
  note e = resize_effect [OF r wf_img_black_10x10(1)]
  have h: "self_h st' = 8" and w: "self_w st' = 10"
    using e(1,2) by (simp_all add: wf_img_black_10x10)
  have "nrows (resized_rgb st') = 8" "ncols (resized_rgb st') = 10"
    using e(3,4) h w by simp_all
  with h w show ?thesis by (simp add: r)
qed

end
